theory Spec2Isabelle
  imports Complex_Main
begin

text \<open>
  A model of \<^verbatim>\<open>server.mjs\<close>, the server of the KunAI support bot: the retry wrapper
  around the backend call, the session map with its compaction, the handler of one chat
  turn, and the functions that detect a completed ticket, extract its fields and strip
  what the user must not see. The web routes, the mail and the issue tracker are outside
  the model; what they return enters it as a parameter.
\<close>

section \<open>JavaScript strings\<close>

text \<open>
  A JavaScript string is a sequence of UTF-16 code units. The functions of
  \<^verbatim>\<open>server.mjs\<close> that look inside a string (\<^verbatim>\<open>trim\<close>, \<^verbatim>\<open>toLowerCase\<close>,
  \<^verbatim>\<open>includes\<close>, \<^verbatim>\<open>match\<close>, \<^verbatim>\<open>replace\<close>) work on code units, so a string is
  modelled as the list of its code units. \<open>lit\<close> turns an ASCII literal into such a list.
\<close>

type_synonym jsstring = "nat list"

definition lit :: "string \<Rightarrow> jsstring" where
  "lit s = map of_char s"

text \<open>
  The white space of \<^verbatim>\<open>String.prototype.trim\<close> and of the regular expression class
  \<^verbatim>\<open>\s\<close>: the ECMAScript productions WhiteSpace and LineTerminator (TAB, LF, VT, FF, CR,
  SP, NBSP, U+1680, U+2000..U+200A, LS, PS, U+202F, U+205F, U+3000, U+FEFF).
\<close>

definition isSpace :: "nat \<Rightarrow> bool" where
  "isSpace c \<longleftrightarrow>
     (9 \<le> c \<and> c \<le> 13) \<or> c = 32 \<or> c = 160 \<or> c = 5760 \<or> (8192 \<le> c \<and> c \<le> 8202) \<or>
     c = 8232 \<or> c = 8233 \<or> c = 8239 \<or> c = 8287 \<or> c = 12288 \<or> c = 65279"

definition trimStart :: "jsstring \<Rightarrow> jsstring" where
  "trimStart s = dropWhile isSpace s"

definition trimEnd :: "jsstring \<Rightarrow> jsstring" where
  "trimEnd s = rev (dropWhile isSpace (rev s))"

definition trim :: "jsstring \<Rightarrow> jsstring" where
  "trim s = trimEnd (trimStart s)"

text \<open>
  \<^verbatim>\<open>toLowerCase\<close>, on the ASCII letters. The only use in the source is
  \<^verbatim>\<open>reply.toLowerCase().includes("[[order_completed]]")\<close>; the code points outside ASCII
  whose lower case contains an ASCII letter are U+0130 (gives \<^verbatim>\<open>i\<close>) and U+212A (gives
  \<^verbatim>\<open>k\<close>), and neither letter occurs in the searched literal, so leaving the other code
  units alone does not change the answer of \<^verbatim>\<open>includes\<close>.
\<close>

definition toLower :: "nat \<Rightarrow> nat" where
  "toLower c = (if 65 \<le> c \<and> c \<le> 90 then c + 32 else c)"

definition toLowerCase :: "jsstring \<Rightarrow> jsstring" where
  "toLowerCase s = map toLower s"

fun startsWith :: "jsstring \<Rightarrow> jsstring \<Rightarrow> bool" where
  "startsWith s [] = True"
| "startsWith [] (p # ps) = False"
| "startsWith (c # cs) (p # ps) = (c = p \<and> startsWith cs ps)"

fun str_includes :: "jsstring \<Rightarrow> jsstring \<Rightarrow> bool" where
  "str_includes [] pat = startsWith [] pat"
| "str_includes (c # cs) pat = (startsWith (c # cs) pat \<or> str_includes cs pat)"

subsection \<open>The regular expressions of the source\<close>

text \<open>
  All three regular expressions carry the flag \<^verbatim>\<open>i\<close> and none the flag \<^verbatim>\<open>u\<close>: two code
  units match when their canonical forms (the upper case, where that is a single code
  unit, and never an ASCII one for a unit outside ASCII) agree. Every literal of the
  patterns is ASCII, and an ASCII pattern character is matched by its two ASCII case forms
  only, so the canonical form is needed on ASCII alone.
\<close>

definition canon :: "nat \<Rightarrow> nat" where
  "canon c = (if 97 \<le> c \<and> c \<le> 122 then c - 32 else c)"

fun ci_prefix :: "jsstring \<Rightarrow> jsstring \<Rightarrow> bool" where
  "ci_prefix [] s = True"
| "ci_prefix (p # ps) [] = False"
| "ci_prefix (p # ps) (c # cs) = (canon p = canon c \<and> ci_prefix ps cs)"

text \<open>
  The lazy \<^verbatim>\<open>[\s\S]*?\<close> followed by a literal: the shortest run of arbitrary code units
  after which the literal matches. The result is the run and what follows the literal.
\<close>

fun find_first :: "jsstring \<Rightarrow> jsstring \<Rightarrow> (jsstring \<times> jsstring) option" where
  "find_first pat [] = (if ci_prefix pat [] then Some ([], []) else None)"
| "find_first pat (c # cs) =
     (if ci_prefix pat (c # cs) then Some ([], drop (length pat) (c # cs))
      else map_option (\<lambda>(run, rest). (c # run, rest)) (find_first pat cs))"

text \<open>
  A match of \<^verbatim>\<open>/OPEN[\s\S]*?CLOSE/i\<close> that starts at the head of the text: the captured run
  and the text after the match.
\<close>

definition match_here :: "jsstring \<Rightarrow> jsstring \<Rightarrow> jsstring \<Rightarrow> (jsstring \<times> jsstring) option" where
  "match_here opn cls s =
     (if ci_prefix opn s then find_first cls (drop (length opn) s) else None)"

text \<open>
  The leftmost match of \<^verbatim>\<open>/OPEN[\s\S]*?CLOSE/i\<close> in a text, as \<^verbatim>\<open>match\<close> and a
  \<^verbatim>\<open>replace\<close> without the flag \<^verbatim>\<open>g\<close> find it: start positions are tried from the
  left. The result is the text before the match, the captured run, and the text after.
\<close>

fun regex_exec :: "jsstring \<Rightarrow> jsstring \<Rightarrow> jsstring \<Rightarrow> (jsstring \<times> jsstring \<times> jsstring) option" where
  "regex_exec opn cls [] =
     (case match_here opn cls [] of
        Some (cap, rest) \<Rightarrow> Some ([], cap, rest)
      | None \<Rightarrow> None)"
| "regex_exec opn cls (c # cs) =
     (case match_here opn cls (c # cs) of
        Some (cap, rest) \<Rightarrow> Some ([], cap, rest)
      | None \<Rightarrow> map_option (\<lambda>(pre, cap, rest). (c # pre, cap, rest)) (regex_exec opn cls cs))"

section \<open>Completion detection and field extraction\<close>

record ticket_fields =
  summary :: "jsstring option"
  description :: "jsstring option"
  category :: "jsstring option"

text \<open>
  \<^verbatim>\<open>get(tag)\<close> of \<^verbatim>\<open>extractTicketFields\<close>: the regular expression is
  \<^verbatim>\<open><tag>([\s\S]*?)<\/tag>\<close> with the flag \<^verbatim>\<open>i\<close>; \<open>None\<close> is \<^verbatim>\<open>null\<close>.
\<close>

definition get :: "jsstring \<Rightarrow> jsstring \<Rightarrow> jsstring option" where
  "get text tag =
     (case regex_exec (lit ''<'' @ tag @ lit ''>'') (lit ''</'' @ tag @ lit ''>'') text of
        Some (pre, cap, rest) \<Rightarrow> Some (trim cap)
      | None \<Rightarrow> None)"

definition extractTicketFields :: "jsstring \<Rightarrow> ticket_fields" where
  "extractTicketFields text =
     \<lparr>summary = get text (lit ''su''),
      description = get text (lit ''de''),
      category = get text (lit ''ca'')\<rparr>"

definition isOrderCompleted :: "jsstring \<Rightarrow> bool" where
  "isOrderCompleted reply = str_includes (toLowerCase reply) (lit ''[[order_completed]]'')"

text \<open>
  \<^verbatim>\<open>reply.replace(/\s*\[\[ORDER_COMPLETED\]\]\s*/gi, "")\<close>: every match is removed, the
  search going on after the end of the previous match. A match at a position takes the
  whole run of white space there (the literal starts with a bracket, which is no white
  space, so no shorter run can do), the literal, and the whole run of white space after it.
\<close>

definition ORDER_COMPLETED :: jsstring where
  "ORDER_COMPLETED = lit ''[[ORDER_COMPLETED]]''"

function replaceOrderCompleted :: "jsstring \<Rightarrow> jsstring" where
  "replaceOrderCompleted [] = []"
| "replaceOrderCompleted (c # cs) =
     (if ci_prefix ORDER_COMPLETED (dropWhile isSpace (c # cs))
      then replaceOrderCompleted
             (dropWhile isSpace (drop (length ORDER_COMPLETED) (dropWhile isSpace (c # cs))))
      else c # replaceOrderCompleted cs)"
  by pat_completeness auto
termination
proof (relation "measure length")
  show "wf (measure length)" by simp
next
  fix c :: nat and cs :: jsstring
  assume "ci_prefix ORDER_COMPLETED (dropWhile isSpace (c # cs))"
  have "length (dropWhile isSpace (drop (length ORDER_COMPLETED) (dropWhile isSpace (c # cs))))
          \<le> length (drop (length ORDER_COMPLETED) (dropWhile isSpace (c # cs)))"
    by (rule length_dropWhile_le)
  also have "\<dots> = length (dropWhile isSpace (c # cs)) - length ORDER_COMPLETED"
    by simp
  also have "\<dots> < length (c # cs)"
  proof -
    have "length (dropWhile isSpace (c # cs)) \<le> length (c # cs)"
      by (rule length_dropWhile_le)
    moreover have "0 < length ORDER_COMPLETED"
      by (simp add: ORDER_COMPLETED_def lit_def)
    moreover have "0 < length (c # cs)"
      by simp
    ultimately show ?thesis by linarith
  qed
  finally show "(dropWhile isSpace (drop (length ORDER_COMPLETED) (dropWhile isSpace (c # cs))),
                 c # cs) \<in> measure length"
    by simp
next
  fix c :: nat and cs :: jsstring
  show "(cs, c # cs) \<in> measure length" by simp
qed

definition stripOrderCompletedTag :: "jsstring \<Rightarrow> jsstring" where
  "stripOrderCompletedTag reply = trim (replaceOrderCompleted reply)"

definition stripTicketBlock :: "jsstring \<Rightarrow> jsstring" where
  "stripTicketBlock reply =
     trim (case regex_exec (lit ''<ticket>'') (lit ''</ticket>'') reply of
             Some (pre, cap, rest) \<Rightarrow> pre @ rest
           | None \<Rightarrow> reply)"

section \<open>Messages, requests and the backend\<close>

datatype role = System | User | Assistant

record message =
  role :: role
  content :: jsstring

text \<open>
  The request handed to \<^verbatim>\<open>client.responses.create\<close>. The temperature is passed through
  to the backend and never computed with; it is kept as the decimal fraction of the source.
\<close>

record payload =
  model :: jsstring
  input :: "message list"
  max_output_tokens :: nat
  temperature :: rat

text \<open>
  Of a response, the code reads \<^verbatim>\<open>output_text\<close> (which may be missing: \<open>None\<close>) and, for
  the log only, the usage counters. Writing to the console changes nothing the program
  reads again and is left out everywhere.
\<close>

record response =
  output_text :: "jsstring option"

text \<open>
  What the code can throw: whatever the backend call rejects with, of which it reads the
  property \<^verbatim>\<open>status\<close> (possibly absent), and the \<^verbatim>\<open>TypeError\<close> of reading a property of
  \<^verbatim>\<open>undefined\<close>.
\<close>

datatype error = BackendError "int option" | TypeError

fun status :: "error \<Rightarrow> int option" where
  "status (BackendError s) = s"
| "status TypeError = None"

datatype outcome = Resolves response | Rejects error

datatype jira_outcome = Created "jsstring option" | Failed

text \<open>
  The collaborators outside the program. \<open>responses_create E n p\<close> is what the backend
  does with the request \<open>p\<close> when \<open>n\<close> requests were made before it.
  \<open>createJiraIssue E s d\<close> is the outcome of posting an issue with summary \<open>s\<close> and
  description \<open>d\<close>: \<open>Created k\<close> when the call returns an object (\<open>k\<close> its \<^verbatim>\<open>key\<close>),
  \<open>Failed\<close> when anything inside the \<^verbatim>\<open>try\<close> block throws. The outcome of
  \<^verbatim>\<open>sendOrderEmail\<close> is caught and logged, and influences nothing.
\<close>

record env =
  responses_create :: "nat \<Rightarrow> payload \<Rightarrow> outcome"
  createJiraIssue :: "jsstring \<Rightarrow> jsstring \<Rightarrow> jira_outcome"

text \<open>
  A session identifier is whatever the request body carries. \<open>truthy\<close> is the
  JavaScript conversion to a boolean on these values.
\<close>

datatype jsval = Undefined | Null | JBool bool | JNum int | JStr jsstring

fun truthy :: "jsval \<Rightarrow> bool" where
  "truthy Undefined = False"
| "truthy Null = False"
| "truthy (JBool b) = b"
| "truthy (JNum n) = (n \<noteq> 0)"
| "truthy (JStr s) = (s \<noteq> [])"

text \<open>
  The state of the process: the map \<^verbatim>\<open>sessions\<close>, and a record of what was done to the
  outside world (backend requests, awaited delays in milliseconds, mails handed to
  \<^verbatim>\<open>sendOrderEmail\<close>, issues handed to \<^verbatim>\<open>createJiraIssue\<close>). One turn runs at a time.
\<close>

record world =
  sessions :: "jsval \<rightharpoonup> message list"
  calls :: "payload list"
  delays :: "int list"
  mails :: "jsstring list"
  issues :: "(jsstring \<times> jsstring) list"

section \<open>The retry wrapper\<close>

text \<open>
  The loop of \<^verbatim>\<open>callOpenAIWithRetry\<close>, from the counter \<open>i\<close> on. The result is
  \<open>Inr (Some r)\<close> for \<^verbatim>\<open>return response\<close>, \<open>Inl e\<close> for \<^verbatim>\<open>throw err\<close>, and
  \<open>Inr None\<close> when the loop ends and the function returns \<^verbatim>\<open>undefined\<close>.
\<close>

function callLoop :: "env \<Rightarrow> payload \<Rightarrow> int \<Rightarrow> int \<Rightarrow> world \<Rightarrow> (error + response option) \<times> world" where
  "callLoop E p retries i w =
     (if i < retries then
        (case responses_create E (length (calls w)) p of
           Resolves r \<Rightarrow> (Inr (Some r), w\<lparr>calls := calls w @ [p]\<rparr>)
         | Rejects err \<Rightarrow>
             if status err = Some 429 \<and> i < retries - 1
             then callLoop E p retries (i + 1)
                    (w\<lparr>calls := calls w @ [p], delays := delays w @ [(i + 1) * 1000]\<rparr>)
             else (Inl err, w\<lparr>calls := calls w @ [p]\<rparr>))
      else (Inr None, w))"
  by pat_completeness auto
termination
  by (relation "measure (\<lambda>(E, p, retries, i, w). nat (retries - i))") auto

definition callOpenAIWithRetry :: "env \<Rightarrow> payload \<Rightarrow> int \<Rightarrow> world \<Rightarrow> (error + response option) \<times> world" where
  "callOpenAIWithRetry E p retries w = callLoop E p retries 0 w"

section \<open>Sessions\<close>

definition systemPrompt :: jsstring where
  "systemPrompt =
     lit (''\<newline>'' @
       ''You are KunAI, an IT support assistant.\<newline>'' @
       ''\<newline>'' @
       ''GOAL:\<newline>'' @
       ''- Help users with IT issues, requests, and feedback.\<newline>'' @
       ''- Collect all info needed to open an IT support ticket.\<newline>'' @
       ''\<newline>'' @
       ''STYLE:\<newline>'' @
       ''- Reply in the user's language.\<newline>'' @
       ''- Short, friendly, slightly sarcastic (never rude).\<newline>'' @
       ''\<newline>'' @
       ''FLOW:\<newline>'' @
       ''1) Greet the user. Ask what issue or request they have.\<newline>'' @
       ''2) Ask for the details you need:\<newline>'' @
       ''   - What is happening?\<newline>'' @
       ''   - Where? (system/app/device/location/company)\<newline>'' @
       ''   - Since when / how often?\<newline>'' @
       ''   - Errors, screenshots, steps to reproduce (if relevant)\<newline>'' @
       ''3) Collect contact info:\<newline>'' @
       ''   - Name\<newline>'' @
       ''   - Location/company\<newline>'' @
       ''   - Optional phone\<newline>'' @
       ''4) Summarize everything, confirm with the user, and ask if they want to add anything.\<newline>'' @
       ''\<newline>'' @
       ''WHEN READY TO CREATE A TICKET:\<newline>'' @
       ''1) Tell the user you are submitting their request.\<newline>'' @
       ''2) Then output a machine-readable block (tags in English only):\<newline>'' @
       ''\<newline>'' @
       ''<ticket>\<newline>'' @
       ''<su>{short summary in user's language}</su>\<newline>'' @
       ''<de>{full description in user's language}</de>\<newline>'' @
       ''<ca>{category in English: Hardware, Software, Access, Network, Feedback, etc.}</ca>\<newline>'' @
       ''</ticket>\<newline>'' @
       ''\<newline>'' @
       ''3) After </ticket>, end with: [[ORDER_COMPLETED]]\<newline>'' @
       ''Use [[ORDER_COMPLETED]] ONLY when a ticket is ready.\<newline>'' @
       ''\<newline>'' @
       ''If the user only needs general help, answer normally without a ticket.\<newline>'')"

definition systemMessage :: message where
  "systemMessage = \<lparr>role = System, content = systemPrompt\<rparr>"

definition MAX_HISTORY_MESSAGES_BEFORE_SUMMARY :: nat where
  "MAX_HISTORY_MESSAGES_BEFORE_SUMMARY = 20"

definition SUMMARY_MAX_OUTPUT_TOKENS :: nat where
  "SUMMARY_MAX_OUTPUT_TOKENS = 200"

definition getContextForSession :: "jsval \<Rightarrow> world \<Rightarrow> message list \<times> world" where
  "getContextForSession sessionId w =
     (case sessions w sessionId of
        None \<Rightarrow> ([systemMessage], w\<lparr>sessions := (sessions w)(sessionId \<mapsto> [systemMessage])\<rparr>)
      | Some context \<Rightarrow> (context, w))"

text \<open>The handler of \<^verbatim>\<open>/api/reset\<close>.\<close>

definition resetSession :: "jsval \<Rightarrow> world \<Rightarrow> world" where
  "resetSession sessionId w =
     (if truthy sessionId \<and> sessions w sessionId \<noteq> None
      then w\<lparr>sessions := (sessions w)(sessionId := None)\<rparr>
      else w)"

text \<open>\<^verbatim>\<open>a || b\<close> where \<open>a\<close> is a string, \<^verbatim>\<open>null\<close> or \<^verbatim>\<open>undefined\<close>.\<close>

definition or_else :: "jsstring option \<Rightarrow> jsstring \<Rightarrow> jsstring" where
  "or_else a b = (case a of None \<Rightarrow> b | Some s \<Rightarrow> if s = [] then b else s)"

section \<open>The compactor\<close>

definition summarySystemPrompt :: jsstring where
  "summarySystemPrompt =
     lit (''\<newline>'' @
       ''You are a helpful assistant that summarizes chat history for another model.\<newline>'' @
       ''Given the conversation between a user and an IT support bot, produce a concise summary\<newline>'' @
       ''(200 words or fewer) of everything that has happened so far, including:\<newline>'' @
       ''- The user's requirements, issues and context\<newline>'' @
       ''- Any important preferences (language, contact details, device, location, etc.)\<newline>'' @
       ''- Key decisions and resolutions reached so far\<newline>'' @
       ''\<newline>'' @
       ''The summary should be in plain text and can be in the same language(s) as the conversation.\<newline>'' @
       ''Do NOT add new information. Just summarize what is there.\<newline>'')"

definition summaryPayload :: "message list \<Rightarrow> payload" where
  "summaryPayload nonSystemMessages =
     \<lparr>model = lit ''gpt-4o-mini'',
      input = \<lparr>role = System, content = summarySystemPrompt\<rparr> # nonSystemMessages,
      max_output_tokens = SUMMARY_MAX_OUTPUT_TOKENS,
      temperature = 2 / 10\<rparr>"

definition summaryMessage :: "response \<Rightarrow> message" where
  "summaryMessage summaryResponse =
     (let summaryText =
            or_else (output_text summaryResponse)
              (lit ''Summary of the previous conversation so far (details omitted).'')
      in \<lparr>role = Assistant,
          content = lit ''Conversation summary so far:\<newline>'' @ summaryText\<rparr>)"

text \<open>
  \<^verbatim>\<open>summarizeContextIfNeeded\<close>. \<^verbatim>\<open>context.slice(1)\<close> is \<open>drop 1 context\<close>;
  \<^verbatim>\<open>context[0]\<close> is read only where more than twenty messages follow it. An
  \<^verbatim>\<open>undefined\<close> result of the wrapper makes \<^verbatim>\<open>summaryResponse.output_text\<close> throw.
\<close>

definition summarizeContextIfNeeded :: "env \<Rightarrow> jsval \<Rightarrow> world \<Rightarrow> (error + unit) \<times> world" where
  "summarizeContextIfNeeded E sessionId w =
     (case sessions w sessionId of
        None \<Rightarrow> (Inr (), w)
      | Some context \<Rightarrow>
          let nonSystemMessages = drop 1 context in
          if length nonSystemMessages \<le> MAX_HISTORY_MESSAGES_BEFORE_SUMMARY then (Inr (), w)
          else
            (case callOpenAIWithRetry E (summaryPayload nonSystemMessages) 3 w of
               (Inl err, w') \<Rightarrow> (Inl err, w')
             | (Inr None, w') \<Rightarrow> (Inl TypeError, w')
             | (Inr (Some summaryResponse), w') \<Rightarrow>
                 let newContext = [context ! 0, summaryMessage summaryResponse]
                 in (Inr (), w'\<lparr>sessions := (sessions w')(sessionId \<mapsto> newContext)\<rparr>)))"

section \<open>The turn handler\<close>

record turn_result =
  reply :: jsstring
  orderCompleted :: bool
  jiraIssueKey :: "jsstring option"

definition chatPayload :: "message list \<Rightarrow> payload" where
  "chatPayload context =
     \<lparr>model = lit ''gpt-4o-mini'',
      input = context,
      max_output_tokens = 400,
      temperature = 3 / 10\<rparr>"

text \<open>
  The default issue summary of the source contains U+1F6E0 U+FE0F, that is the code units
  D83D DEE0 FE0F.
\<close>

definition defaultSummary :: jsstring where
  "defaultSummary = lit ''New support request '' @ [55357, 57056, 65039] @ lit '' from KunAI''"

text \<open>
  Steps 3 to 6 of \<^verbatim>\<open>handleChatMessage\<close>: what happens once the backend has answered.
  \<open>context\<close> is the array of the session, the user message already pushed; the second
  \<^verbatim>\<open>push\<close> goes to the same array, which the map still holds under \<open>sid\<close>.
\<close>

definition completeTurn :: "env \<Rightarrow> jsval \<Rightarrow> message list \<Rightarrow> response \<Rightarrow> world \<Rightarrow> turn_result \<times> world" where
  "completeTurn E sid context resp w =
     (let assistantText = or_else (output_text resp) (lit ''Sorry, I had trouble answering that.'');
          completed = isOrderCompleted assistantText;
          fields = extractTicketFields assistantText;
          cleanedReply = stripTicketBlock (stripOrderCompletedTag assistantText);
          w1 = w\<lparr>sessions := (sessions w)(sid \<mapsto> context @ [\<lparr>role = Assistant, content = cleanedReply\<rparr>])\<rparr>
      in if completed then
           let w2 = w1\<lparr>mails := mails w1 @ [cleanedReply]\<rparr>;
               summary = or_else (summary fields) defaultSummary;
               description =
                 or_else (description fields)
                   (cleanedReply @ lit ''\<newline>\<newline>(Category: '' @
                    or_else (category fields) (lit ''Uncategorized'') @ lit '')'');
               w3 = w2\<lparr>issues := issues w2 @ [(summary, description)]\<rparr>
           in (case createJiraIssue E summary description of
                 Created key \<Rightarrow>
                   (\<lparr>reply = cleanedReply, orderCompleted = completed, jiraIssueKey = key\<rparr>,
                    w3\<lparr>sessions := (sessions w3)(sid \<mapsto> [systemMessage])\<rparr>)
               | Failed \<Rightarrow>
                   (\<lparr>reply = cleanedReply, orderCompleted = completed, jiraIssueKey = None\<rparr>, w3))
         else (\<lparr>reply = cleanedReply, orderCompleted = completed, jiraIssueKey = None\<rparr>, w1))"

text \<open>\<^verbatim>\<open>sessionId || "default-session"\<close>, the first line of \<^verbatim>\<open>handleChatMessage\<close>.\<close>

definition sessionKey :: "jsval \<Rightarrow> jsval" where
  "sessionKey sessionId = (if truthy sessionId then sessionId else JStr (lit ''default-session''))"

text \<open>
  \<^verbatim>\<open>handleChatMessage\<close>. An error thrown by the compactor or by the wrapper leaves the
  function at that point; the state is then what it was at the throw.
\<close>

definition handleChatMessage :: "env \<Rightarrow> jsstring \<Rightarrow> jsval \<Rightarrow> world \<Rightarrow> (error + turn_result) \<times> world" where
  "handleChatMessage E message sessionId w =
     (let sid = sessionKey sessionId;
          w1 = snd (getContextForSession sid w)
      in case summarizeContextIfNeeded E sid w1 of
           (Inl err, w2) \<Rightarrow> (Inl err, w2)
         | (Inr u, w2) \<Rightarrow>
             let (context0, w3) = getContextForSession sid w2;
                 context = context0 @ [\<lparr>role = User, content = message\<rparr>];
                 w4 = w3\<lparr>sessions := (sessions w3)(sid \<mapsto> context)\<rparr>
             in (case callOpenAIWithRetry E (chatPayload context) 3 w4 of
                   (Inl err, w5) \<Rightarrow> (Inl err, w5)
                 | (Inr None, w5) \<Rightarrow> (Inl TypeError, w5)
                 | (Inr (Some resp), w5) \<Rightarrow>
                     (case completeTurn E sid context resp w5 of
                        (result, w6) \<Rightarrow> (Inr result, w6))))"

section \<open>The invariant of the session map\<close>

text \<open>
  Every stored session is a non-empty array whose first element is the system message.
\<close>

definition sessions_ok :: "world \<Rightarrow> bool" where
  "sessions_ok w \<longleftrightarrow>
     (\<forall>sid context. sessions w sid = Some context \<longrightarrow> context \<noteq> [] \<and> hd context = systemMessage)"

section \<open>Scenarios\<close>

text \<open>Concrete backends and states, on which the theorems below are run.\<close>

definition limited_twice :: env where
  "limited_twice =
     \<lparr>responses_create =
        (\<lambda>n p. if n < 2 then Rejects (BackendError (Some 429))
               else Resolves \<lparr>output_text = Some (lit ''Hello'')\<rparr>),
      createJiraIssue = (\<lambda>s d. Failed)\<rparr>"

definition start :: world where
  "start = \<lparr>sessions = Map.empty, calls = [], delays = [], mails = [], issues = []\<rparr>"

definition answers :: env where
  "answers =
     \<lparr>responses_create = (\<lambda>n p. Resolves \<lparr>output_text = Some (lit ''Hello'')\<rparr>),
      createJiraIssue = (\<lambda>s d. Failed)\<rparr>"

definition always_limited :: env where
  "always_limited =
     \<lparr>responses_create = (\<lambda>n p. Rejects (BackendError (Some 429))),
      createJiraIssue = (\<lambda>s d. Failed)\<rparr>"

definition long_history :: "message list" where
  "long_history = systemMessage # replicate 21 \<lparr>role = User, content = lit ''hi''\<rparr>"

definition s1 :: jsval where
  "s1 = JStr (lit ''s1'')"

definition busy :: world where
  "busy = start\<lparr>sessions := [s1 \<mapsto> long_history]\<rparr>"

definition fresh :: world where
  "fresh = start\<lparr>sessions := [s1 \<mapsto> [systemMessage]]\<rparr>"

text \<open>
  The three tagged fields one after the other, as the system prompt asks for them (there
  inside a \<^verbatim>\<open>ticket\<close> element and on lines of their own).
\<close>

definition tag_block :: "jsstring \<Rightarrow> jsstring \<Rightarrow> jsstring \<Rightarrow> jsstring" where
  "tag_block X Y Z =
     lit ''<su>'' @ X @ lit ''</su>'' @ lit ''<de>'' @ Y @ lit ''</de>'' @ lit ''<ca>'' @ Z @ lit ''</ca>''"

definition tagged_text :: jsstring where
  "tagged_text = lit ''<su>X</su><de>Y</de><ca>Z</ca>[[ORDER_COMPLETED]]''"

definition tagged_reply :: env where
  "tagged_reply =
     \<lparr>responses_create = (\<lambda>n p. Resolves \<lparr>output_text = Some tagged_text\<rparr>),
      createJiraIssue = (\<lambda>s d. Failed)\<rparr>"

definition hidden_only :: env where
  "hidden_only =
     \<lparr>responses_create =
        (\<lambda>n p. Resolves \<lparr>output_text = Some (lit ''<ticket><su>X</su></ticket>[[ORDER_COMPLETED]]'')\<rparr>),
      createJiraIssue = (\<lambda>s d. Failed)\<rparr>"

definition silent :: env where
  "silent =
     \<lparr>responses_create = (\<lambda>n p. Resolves \<lparr>output_text = Some []\<rparr>),
      createJiraIssue = (\<lambda>s d. Failed)\<rparr>"

definition earlier :: "message list" where
  "earlier =
     [systemMessage, \<lparr>role = User, content = lit ''My mouse is dead''\<rparr>,
      \<lparr>role = Assistant, content = lit ''Which one?''\<rparr>]"

definition chatting :: world where
  "chatting =
     start\<lparr>sessions := [JStr (lit ''default-session'') \<mapsto> earlier, s1 \<mapsto> [systemMessage]]\<rparr>"

section \<open>Properties of the retry wrapper\<close>

lemma backoff_shift:
  "d @ [(i + 1) * 1000] @ map (\<lambda>j. (i + 1 + int j + 1) * 1000) [0..<k]
     = d @ map (\<lambda>j. (i + int j + 1) * (1000::int)) [0..<Suc k]"
  by (simp add: map_upt_Suc del: upt_Suc)

declare callLoop.simps [simp del]

lemma callLoop_done:
  "\<not> i < retries \<Longrightarrow> callLoop E p retries i w = (Inr None, w)"
  by (subst callLoop.simps) simp

lemma callLoop_resolves:
  "i < retries \<Longrightarrow> responses_create E (length (calls w)) p = Resolves r \<Longrightarrow>
   callLoop E p retries i w = (Inr (Some r), w\<lparr>calls := calls w @ [p]\<rparr>)"
  by (subst callLoop.simps) simp

lemma callLoop_retry:
  "i < retries \<Longrightarrow> responses_create E (length (calls w)) p = Rejects err \<Longrightarrow>
   status err = Some 429 \<Longrightarrow> i < retries - 1 \<Longrightarrow>
   callLoop E p retries i w =
     callLoop E p retries (i + 1)
       (w\<lparr>calls := calls w @ [p], delays := delays w @ [(i + 1) * 1000]\<rparr>)"
  by (subst callLoop.simps) simp

lemma callLoop_throws:
  "i < retries \<Longrightarrow> responses_create E (length (calls w)) p = Rejects err \<Longrightarrow>
   \<not> (status err = Some 429 \<and> i < retries - 1) \<Longrightarrow>
   callLoop E p retries i w = (Inl err, w\<lparr>calls := calls w @ [p]\<rparr>)"
  by (subst callLoop.simps) auto

lemma callLoop_run:
  "i < retries \<Longrightarrow>
   \<exists>k. i + int k < retries \<and>
       (\<forall>j<k. \<exists>e. responses_create E (length (calls w) + j) p = Rejects e \<and> status e = Some 429) \<and>
       snd (callLoop E p retries i w) =
         w\<lparr>calls := calls w @ replicate (Suc k) p,
           delays := delays w @ map (\<lambda>j. (i + int j + 1) * 1000) [0..<k]\<rparr> \<and>
       (case responses_create E (length (calls w) + k) p of
          Resolves r \<Rightarrow> fst (callLoop E p retries i w) = Inr (Some r)
        | Rejects e \<Rightarrow> fst (callLoop E p retries i w) = Inl e \<and>
                        (status e = Some 429 \<longrightarrow> i + int k = retries - 1))"
proof (induction E p retries i w rule: callLoop.induct)
  case (1 E p retries i w)
  show ?case
  proof (cases "responses_create E (length (calls w)) p")
    case (Resolves r)
    with "1.prems" have "callLoop E p retries i w = (Inr (Some r), w\<lparr>calls := calls w @ [p]\<rparr>)"
      by (simp add: callLoop_resolves)
    with Resolves "1.prems" show ?thesis
      by (intro exI[of _ 0]) simp
  next
    case (Rejects err)
    show ?thesis
    proof (cases "status err = Some 429 \<and> i < retries - 1")
      case False
      have "callLoop E p retries i w = (Inl err, w\<lparr>calls := calls w @ [p]\<rparr>)"
        by (rule callLoop_throws[OF "1.prems" Rejects False])
      with Rejects "1.prems" False show ?thesis
        by (intro exI[of _ 0]) auto
    next
      case True
      let ?w = "w\<lparr>calls := calls w @ [p], delays := delays w @ [(i + 1) * 1000]\<rparr>"
      from True have lt: "i + 1 < retries" by simp
      from True have is429: "status err = Some 429" and more: "i < retries - 1"
        by simp_all
      have unfold: "callLoop E p retries i w = callLoop E p retries (i + 1) ?w"
        by (rule callLoop_retry[OF "1.prems" Rejects is429 more])
      from "1.IH"[OF "1.prems" Rejects True lt]
      obtain k where k: "i + 1 + int k < retries"
        and rej: "\<forall>j<k. \<exists>e. responses_create E (length (calls ?w) + j) p = Rejects e \<and> status e = Some 429"
        and st: "snd (callLoop E p retries (i + 1) ?w) =
                   ?w\<lparr>calls := calls ?w @ replicate (Suc k) p,
                      delays := delays ?w @ map (\<lambda>j. (i + 1 + int j + 1) * 1000) [0..<k]\<rparr>"
        and fin: "(case responses_create E (length (calls ?w) + k) p of
                     Resolves r \<Rightarrow> fst (callLoop E p retries (i + 1) ?w) = Inr (Some r)
                   | Rejects e \<Rightarrow> fst (callLoop E p retries (i + 1) ?w) = Inl e \<and>
                        (status e = Some 429 \<longrightarrow> i + 1 + int k = retries - 1))"
        by blast
      have a: "i + int (Suc k) < retries" using k by simp
      have b: "\<forall>j<Suc k. \<exists>e. responses_create E (length (calls w) + j) p = Rejects e \<and> status e = Some 429"
      proof (intro allI impI)
        fix j assume "j < Suc k"
        show "\<exists>e. responses_create E (length (calls w) + j) p = Rejects e \<and> status e = Some 429"
        proof (cases j)
          case 0
          with Rejects True show ?thesis by simp
        next
          case (Suc j')
          with \<open>j < Suc k\<close> rej have "\<exists>e. responses_create E (length (calls ?w) + j') p = Rejects e \<and> status e = Some 429"
            by simp
          with Suc show ?thesis by simp
        qed
      qed
      have c: "snd (callLoop E p retries i w) =
                 w\<lparr>calls := calls w @ replicate (Suc (Suc k)) p,
                   delays := delays w @ map (\<lambda>j. (i + int j + 1) * 1000) [0..<Suc k]\<rparr>"
        using st backoff_shift[of "delays w" i k] unfolding unfold
        by (simp del: upt_Suc)
      have d: "(case responses_create E (length (calls w) + Suc k) p of
                  Resolves r \<Rightarrow> fst (callLoop E p retries i w) = Inr (Some r)
                | Rejects e \<Rightarrow> fst (callLoop E p retries i w) = Inl e \<and>
                     (status e = Some 429 \<longrightarrow> i + int (Suc k) = retries - 1))"
        using fin unfolding unfold
        by (auto simp: add.commute add.left_commute split: outcome.splits)
      from a b c d show ?thesis by blast
    qed
  qed
qed


text \<open>
  C1. With a retry budget of zero or less the wrapper makes no request and returns
  \<^verbatim>\<open>undefined\<close>. With a positive budget it makes \<open>k + 1\<close> requests for some \<open>k\<close> below
  the budget. The first \<open>k\<close> of them were rejected with status 429 and each was followed by
  a delay, \<open>(j + 1) * 1000\<close> milliseconds after the \<open>j\<close>-th of them, so the delays grow
  strictly. The last request decides the result: its response is returned, or its error is
  thrown at once; and a thrown error has status 429 only when the budget is used up. No
  request and no delay follows.
\<close>

theorem gateway_retry_policy:
  "(retries \<le> 0 \<longrightarrow> callOpenAIWithRetry E p retries w = (Inr None, w)) \<and>
   (0 < retries \<longrightarrow>
      (\<exists>k. int k < retries \<and>
         (\<forall>j<k. \<exists>e. responses_create E (length (calls w) + j) p = Rejects e \<and> status e = Some 429) \<and>
         snd (callOpenAIWithRetry E p retries w) =
           w\<lparr>calls := calls w @ replicate (Suc k) p,
             delays := delays w @ map (\<lambda>j. (int j + 1) * 1000) [0..<k]\<rparr> \<and>
         sorted_wrt (<) (map (\<lambda>j. (int j + 1) * 1000) [0..<k]) \<and>
         (case responses_create E (length (calls w) + k) p of
            Resolves r \<Rightarrow> fst (callOpenAIWithRetry E p retries w) = Inr (Some r)
          | Rejects e \<Rightarrow> fst (callOpenAIWithRetry E p retries w) = Inl e \<and>
                          (status e = Some 429 \<longrightarrow> int k = retries - 1))))"
proof (intro conjI impI)
  assume "retries \<le> 0"
  then show "callOpenAIWithRetry E p retries w = (Inr None, w)"
    by (simp add: callOpenAIWithRetry_def callLoop_done)
next
  assume pos: "0 < retries"
  from callLoop_run[OF pos, of E w p]
  obtain k where "0 + int k < retries"
    and "\<forall>j<k. \<exists>e. responses_create E (length (calls w) + j) p = Rejects e \<and> status e = Some 429"
    and "snd (callLoop E p retries 0 w) =
         w\<lparr>calls := calls w @ replicate (Suc k) p,
           delays := delays w @ map (\<lambda>j. (0 + int j + 1) * 1000) [0..<k]\<rparr>"
    and "(case responses_create E (length (calls w) + k) p of
          Resolves r \<Rightarrow> fst (callLoop E p retries 0 w) = Inr (Some r)
        | Rejects e \<Rightarrow> fst (callLoop E p retries 0 w) = Inl e \<and>
                        (status e = Some 429 \<longrightarrow> 0 + int k = retries - 1))"
    by blast
  moreover have "sorted_wrt (<) (map (\<lambda>j. (int j + 1) * (1000::int)) [0..<k])"
    by (simp add: sorted_wrt_map sorted_wrt_iff_nth_less)
  ultimately show "\<exists>k. int k < retries \<and>
         (\<forall>j<k. \<exists>e. responses_create E (length (calls w) + j) p = Rejects e \<and> status e = Some 429) \<and>
         snd (callOpenAIWithRetry E p retries w) =
           w\<lparr>calls := calls w @ replicate (Suc k) p,
             delays := delays w @ map (\<lambda>j. (int j + 1) * 1000) [0..<k]\<rparr> \<and>
         sorted_wrt (<) (map (\<lambda>j. (int j + 1) * 1000) [0..<k]) \<and>
         (case responses_create E (length (calls w) + k) p of
            Resolves r \<Rightarrow> fst (callOpenAIWithRetry E p retries w) = Inr (Some r)
          | Rejects e \<Rightarrow> fst (callOpenAIWithRetry E p retries w) = Inl e \<and>
                          (status e = Some 429 \<longrightarrow> int k = retries - 1))"
    unfolding callOpenAIWithRetry_def
    by (intro exI[of _ k]) (simp split: outcome.splits)
qed

theorem gateway_retry_policy_witness:
  "0 < (3::int) \<and>
   fst (callOpenAIWithRetry limited_twice (chatPayload []) 3 start)
     = Inr (Some \<lparr>output_text = Some (lit ''Hello'')\<rparr>) \<and>
   delays (snd (callOpenAIWithRetry limited_twice (chatPayload []) 3 start)) = [1000, 2000] \<and>
   length (calls (snd (callOpenAIWithRetry limited_twice (chatPayload []) 3 start))) = 3 \<and>
   (0::int) \<le> 0 \<and>
   callOpenAIWithRetry limited_twice (chatPayload []) 0 start = (Inr None, start)"
proof -
  let ?run = "callOpenAIWithRetry limited_twice (chatPayload []) 3 start"
  have pos: "0 < (3::int)" by simp
  from gateway_retry_policy[of 3 limited_twice "chatPayload []" start] pos
  obtain k where k: "int k < 3"
    and rej: "\<forall>j<k. \<exists>e. responses_create limited_twice (length (calls start) + j) (chatPayload []) = Rejects e"
    and st: "snd ?run = start\<lparr>calls := calls start @ replicate (Suc k) (chatPayload []),
                 delays := delays start @ map (\<lambda>j. (int j + 1) * 1000) [0..<k]\<rparr>"
    and fin: "(case responses_create limited_twice (length (calls start) + k) (chatPayload []) of
                 Resolves r \<Rightarrow> fst ?run = Inr (Some r)
               | Rejects e \<Rightarrow> fst ?run = Inl e \<and> (status e = Some 429 \<longrightarrow> int k = 3 - 1))"
    by blast
  have "k = 2"
  proof (rule ccontr)
    assume "k \<noteq> 2"
    with k have "k < 2" by simp
    with fin show False by (simp add: limited_twice_def start_def)
  qed
  with st fin have three: "fst ?run = Inr (Some \<lparr>output_text = Some (lit ''Hello'')\<rparr>) \<and>
      delays (snd ?run) = [1000, 2000] \<and> length (calls (snd ?run)) = 3"
    by (simp add: limited_twice_def start_def numeral_2_eq_2)
  from gateway_retry_policy[of 0 limited_twice "chatPayload []" start]
  have "callOpenAIWithRetry limited_twice (chatPayload []) 0 start = (Inr None, start)"
    by simp
  with three show ?thesis by simp
qed

section \<open>Properties of sessions, compaction and turns\<close>

lemma callLoop_frame:
  "sessions (snd (callLoop E p retries i w)) = sessions w \<and>
   mails (snd (callLoop E p retries i w)) = mails w \<and>
   issues (snd (callLoop E p retries i w)) = issues w"
proof (induction E p retries i w rule: callLoop.induct)
  case (1 E p retries i w)
  show ?case
  proof (cases "i < retries")
    case False
    then show ?thesis by (simp add: callLoop_done)
  next
    case True
    show ?thesis
    proof (cases "responses_create E (length (calls w)) p")
      case (Resolves r)
      with True show ?thesis by (simp add: callLoop_resolves)
    next
      case (Rejects err)
      show ?thesis
      proof (cases "status err = Some 429 \<and> i < retries - 1")
        case False
        from callLoop_throws[OF True Rejects False] show ?thesis by simp
      next
        case yes: True
        then have a: "status err = Some 429" and b: "i < retries - 1" by simp_all
        from "1.IH"[OF True Rejects yes] callLoop_retry[OF True Rejects a b]
        show ?thesis by simp
      qed
    qed
  qed
qed

lemma gateway_sessions [simp]:
  "sessions (snd (callOpenAIWithRetry E p retries w)) = sessions w"
  by (simp add: callOpenAIWithRetry_def callLoop_frame)

lemma gateway_sessions':
  "callOpenAIWithRetry E p retries w = (res, w') \<Longrightarrow> sessions w' = sessions w"
  using gateway_sessions[of E p retries w] by simp

lemma gateway_returns_or_throws:
  assumes "0 < retries"
  shows "fst (callOpenAIWithRetry E p retries w) \<noteq> Inr None"
proof -
  from callLoop_run[OF assms, of E w p]
  obtain k where "(case responses_create E (length (calls w) + k) p of
          Resolves r \<Rightarrow> fst (callLoop E p retries 0 w) = Inr (Some r)
        | Rejects e \<Rightarrow> fst (callLoop E p retries 0 w) = Inl e \<and>
                        (status e = Some 429 \<longrightarrow> 0 + int k = retries - 1))"
    by blast
  then show ?thesis
    by (auto simp: callOpenAIWithRetry_def split: outcome.splits)
qed

lemma summarize_absent:
  "sessions w sid = None \<Longrightarrow> summarizeContextIfNeeded E sid w = (Inr (), w)"
  by (simp add: summarizeContextIfNeeded_def)

lemma summarize_short:
  "sessions w sid = Some context \<Longrightarrow> length (drop 1 context) \<le> 20 \<Longrightarrow>
   summarizeContextIfNeeded E sid w = (Inr (), w)"
  by (simp add: summarizeContextIfNeeded_def MAX_HISTORY_MESSAGES_BEFORE_SUMMARY_def)

lemma summarize_long:
  "sessions w sid = Some context \<Longrightarrow> 20 < length (drop 1 context) \<Longrightarrow>
   summarizeContextIfNeeded E sid w =
     (case callOpenAIWithRetry E (summaryPayload (drop 1 context)) 3 w of
        (Inl err, w') \<Rightarrow> (Inl err, w')
      | (Inr None, w') \<Rightarrow> (Inl TypeError, w')
      | (Inr (Some summaryResponse), w') \<Rightarrow>
          (Inr (), w'\<lparr>sessions := (sessions w')(sid \<mapsto> [context ! 0, summaryMessage summaryResponse])\<rparr>))"
  by (simp add: summarizeContextIfNeeded_def MAX_HISTORY_MESSAGES_BEFORE_SUMMARY_def Let_def
        split: prod.splits sum.splits option.splits)

text \<open>
  C2. For a stored session, the compaction step changes nothing (and makes no request) when
  at most 20 messages follow the first one. When more than 20 follow it and the
  summarization call returns a response, the step succeeds and the session becomes exactly
  two messages, whatever its length was: its former first message, and an assistant message
  whose content is \<^verbatim>\<open>Conversation summary so far:\<close>, a line break, and the summary text
  (the response's text, or the fixed line that stands in for an empty or missing text).
  No other session changes.
\<close>

theorem compaction_shape:
  assumes "sessions w sid = Some context"
  shows "(length (drop 1 context) \<le> 20 \<longrightarrow> summarizeContextIfNeeded E sid w = (Inr (), w)) \<and>
         (20 < length (drop 1 context) \<longrightarrow>
            (\<forall>r w'. callOpenAIWithRetry E (summaryPayload (drop 1 context)) 3 w = (Inr (Some r), w') \<longrightarrow>
               fst (summarizeContextIfNeeded E sid w) = Inr () \<and>
               sessions (snd (summarizeContextIfNeeded E sid w)) =
                 (sessions w)(sid \<mapsto>
                   [hd context,
                    \<lparr>role = Assistant,
                     content = lit ''Conversation summary so far:'' @ lit ''\<newline>'' @
                       or_else (output_text r)
                         (lit ''Summary of the previous conversation so far (details omitted).'')\<rparr>])))"
proof (intro conjI impI allI)
  assume "length (drop 1 context) \<le> 20"
  with assms show "summarizeContextIfNeeded E sid w = (Inr (), w)"
    by (rule summarize_short)
next
  fix r w'
  assume long: "20 < length (drop 1 context)"
    and call: "callOpenAIWithRetry E (summaryPayload (drop 1 context)) 3 w = (Inr (Some r), w')"
  from long have ne: "context \<noteq> []" by auto
  then have hd0: "context ! 0 = hd context" by (simp add: hd_conv_nth)
  from call have same: "sessions w' = sessions w" by (rule gateway_sessions')
  have run: "summarizeContextIfNeeded E sid w =
               (Inr (), w'\<lparr>sessions := (sessions w')(sid \<mapsto> [context ! 0, summaryMessage r])\<rparr>)"
    using summarize_long[OF assms long, of E] call by simp
  show "fst (summarizeContextIfNeeded E sid w) = Inr ()"
    using run by simp
  show "sessions (snd (summarizeContextIfNeeded E sid w)) =
          (sessions w)(sid \<mapsto>
            [hd context,
             \<lparr>role = Assistant,
              content = lit ''Conversation summary so far:'' @ lit ''\<newline>'' @
                or_else (output_text r)
                  (lit ''Summary of the previous conversation so far (details omitted).'')\<rparr>])"
    using run same hd0 by (simp add: summaryMessage_def Let_def lit_def)
qed

theorem compaction_shape_witness:
  "sessions fresh s1 = Some [systemMessage] \<and>
   length (drop 1 [systemMessage]) \<le> 20 \<and>
   summarizeContextIfNeeded answers s1 fresh = (Inr (), fresh) \<and>
   sessions busy s1 = Some long_history \<and>
   20 < length (drop 1 long_history) \<and>
   fst (callOpenAIWithRetry answers (summaryPayload (drop 1 long_history)) 3 busy)
     = Inr (Some \<lparr>output_text = Some (lit ''Hello'')\<rparr>) \<and>
   sessions (snd (summarizeContextIfNeeded answers s1 busy)) =
     [s1 \<mapsto> [systemMessage,
                \<lparr>role = Assistant,
                 content = lit ''Conversation summary so far:'' @ lit ''\<newline>'' @ lit ''Hello''\<rparr>]]"
proof -
  have f: "sessions fresh s1 = Some [systemMessage]"
    by (simp add: fresh_def)
  have b: "sessions busy s1 = Some long_history"
    by (simp add: busy_def)
  have len: "20 < length (drop 1 long_history)"
    by (simp add: long_history_def)
  let ?w' = "busy\<lparr>calls := calls busy @ [summaryPayload (drop 1 long_history)]\<rparr>"
  let ?r = "\<lparr>output_text = Some (lit ''Hello'')\<rparr>"
  have call: "callOpenAIWithRetry answers (summaryPayload (drop 1 long_history)) 3 busy = (Inr (Some ?r), ?w')"
    unfolding callOpenAIWithRetry_def
    by (rule callLoop_resolves) (simp_all add: answers_def)
  have hello: "or_else (Some (lit ''Hello'')) x = lit ''Hello''" for x
    by (simp add: or_else_def lit_def)
  from compaction_shape[OF f, of answers] compaction_shape[OF b, of answers] len call
  show ?thesis
    using f b by (simp add: hello long_history_def busy_def start_def)
qed

text \<open>
  C6. When a session needs compaction and the summarization call throws, the compaction
  step throws the same error and the session map is what it was; a turn on that session
  then throws that error too, with the session map still what it was before the turn.
\<close>

theorem compaction_failure_keeps_session:
  assumes "sessions w sid = Some context"
    and "20 < length (drop 1 context)"
    and "fst (callOpenAIWithRetry E (summaryPayload (drop 1 context)) 3 w) = Inl e"
  shows "fst (summarizeContextIfNeeded E sid w) = Inl e \<and>
         sessions (snd (summarizeContextIfNeeded E sid w)) = sessions w \<and>
         (sessionKey sessionId = sid \<longrightarrow>
            fst (handleChatMessage E message sessionId w) = Inl e \<and>
            sessions (snd (handleChatMessage E message sessionId w)) = sessions w)"
proof -
  obtain res w' where call: "callOpenAIWithRetry E (summaryPayload (drop 1 context)) 3 w = (res, w')"
    by (cases "callOpenAIWithRetry E (summaryPayload (drop 1 context)) 3 w")
  with assms(3) have res: "res = Inl e" by simp
  from call have same: "sessions w' = sessions w" by (rule gateway_sessions')
  have run: "summarizeContextIfNeeded E sid w = (Inl e, w')"
    using summarize_long[OF assms(1,2), of E] call res by simp
  have get: "getContextForSession sid w = (context, w)"
    using assms(1) by (simp add: getContextForSession_def)
  have "sessionKey sessionId = sid \<Longrightarrow> handleChatMessage E message sessionId w = (Inl e, w')"
    using run get by (simp add: handleChatMessage_def Let_def)
  with run same show ?thesis by simp
qed

theorem compaction_failure_keeps_session_witness:
  "sessions busy s1 = Some long_history \<and>
   20 < length (drop 1 long_history) \<and>
   fst (callOpenAIWithRetry always_limited (summaryPayload (drop 1 long_history)) 3 busy)
     = Inl (BackendError (Some 429)) \<and>
   sessionKey s1 = s1 \<and>
   fst (handleChatMessage always_limited (lit ''Hi'') s1 busy) = Inl (BackendError (Some 429)) \<and>
   sessions (snd (handleChatMessage always_limited (lit ''Hi'') s1 busy)) = [s1 \<mapsto> long_history]"
proof -
  have b: "sessions busy s1 = Some long_history"
    by (simp add: busy_def)
  have len: "20 < length (drop 1 long_history)"
    by (simp add: long_history_def)
  have call: "fst (callOpenAIWithRetry always_limited (summaryPayload (drop 1 long_history)) 3 busy)
                = Inl (BackendError (Some 429))"
    by (simp add: callOpenAIWithRetry_def callLoop.simps always_limited_def)
  have key: "sessionKey s1 = s1"
    by (simp add: sessionKey_def s1_def lit_def)
  from compaction_failure_keeps_session[OF b len call, of s1 "lit ''Hi''"] key b len call
  show ?thesis by (simp add: busy_def start_def)
qed

lemma gateway_frame:
  "callOpenAIWithRetry E p retries w = (res, w') \<Longrightarrow>
   sessions w' = sessions w \<and> mails w' = mails w \<and> issues w' = issues w"
  using callLoop_frame[of E p retries 0 w] by (simp add: callOpenAIWithRetry_def)

lemma getContext_existing:
  "sessions w sid = Some c \<Longrightarrow> getContextForSession sid w = (c, w)"
  by (simp add: getContextForSession_def)

lemma getContext_new:
  "sessions w sid = None \<Longrightarrow>
   getContextForSession sid w = ([systemMessage], w\<lparr>sessions := (sessions w)(sid \<mapsto> [systemMessage])\<rparr>)"
  by (simp add: getContextForSession_def)

lemma summarize_effect:
  assumes "summarizeContextIfNeeded E sid w = (res, w')"
  shows "mails w' = mails w \<and> issues w' = issues w \<and>
         (sessions w' = sessions w \<or>
          (\<exists>c r. sessions w sid = Some c \<and> 20 < length (drop 1 c) \<and> res = Inr () \<and>
                 sessions w' = (sessions w)(sid \<mapsto> [hd c, summaryMessage r])))"
proof (cases "sessions w sid")
  case None
  with assms show ?thesis by (simp add: summarize_absent)
next
  case (Some c)
  show ?thesis
  proof (cases "length (drop 1 c) \<le> 20")
    case True
    with assms Some show ?thesis by (simp add: summarize_short)
  next
    case False
    then have long: "20 < length (drop 1 c)" by simp
    then have hd0: "c ! 0 = hd c" by (cases c) simp_all
    obtain g w1 where call: "callOpenAIWithRetry E (summaryPayload (drop 1 c)) 3 w = (g, w1)"
      by (cases "callOpenAIWithRetry E (summaryPayload (drop 1 c)) 3 w")
    note fr = gateway_frame[OF call]
    from assms summarize_long[OF Some long, of E] call
    have "(res, w') = (case g of Inl err \<Rightarrow> (Inl err, w1) | Inr None \<Rightarrow> (Inl TypeError, w1)
             | Inr (Some r) \<Rightarrow> (Inr (), w1\<lparr>sessions := (sessions w1)(sid \<mapsto> [c ! 0, summaryMessage r])\<rparr>))"
      by simp
    with fr Some long hd0 show ?thesis
      by (auto split: sum.splits option.splits)
  qed
qed

text \<open>
  C5. When the compaction step of a turn has completed and the call for the reply throws,
  the turn throws the same error, and afterwards the session holds the messages it held
  after compaction followed by the user message, and no assistant message. Those messages
  are the system message alone for a new session, the unchanged history for a session with
  at most 20 messages after the first, and the first message with a summary message
  otherwise. No other session changes, no mail is sent and no issue is posted.
\<close>

theorem chat_failure_keeps_history:
  assumes comp: "summarizeContextIfNeeded E (sessionKey sessionId)
                   (snd (getContextForSession (sessionKey sessionId) w)) = (Inr (), w2)"
    and ctx: "sessions w2 (sessionKey sessionId) = Some context0"
    and fail: "fst (callOpenAIWithRetry E
                      (chatPayload (context0 @ [\<lparr>role = User, content = message\<rparr>])) 3
                      (w2\<lparr>sessions := (sessions w2)(sessionKey sessionId \<mapsto>
                                          context0 @ [\<lparr>role = User, content = message\<rparr>])\<rparr>)) = Inl e"
  shows "fst (handleChatMessage E message sessionId w) = Inl e \<and>
         sessions (snd (handleChatMessage E message sessionId w)) (sessionKey sessionId)
           = Some (context0 @ [\<lparr>role = User, content = message\<rparr>]) \<and>
         (\<forall>k. k \<noteq> sessionKey sessionId \<longrightarrow>
            sessions (snd (handleChatMessage E message sessionId w)) k = sessions w k) \<and>
         mails (snd (handleChatMessage E message sessionId w)) = mails w \<and>
         issues (snd (handleChatMessage E message sessionId w)) = issues w \<and>
         (sessions w (sessionKey sessionId) = None \<longrightarrow> context0 = [systemMessage]) \<and>
         (\<forall>c. sessions w (sessionKey sessionId) = Some c \<longrightarrow>
            (length (drop 1 c) \<le> 20 \<longrightarrow> context0 = c) \<and>
            (20 < length (drop 1 c) \<longrightarrow> (\<exists>r. context0 = [hd c, summaryMessage r])))"
proof -
  let ?sid = "sessionKey sessionId"
  let ?u = "\<lparr>role = User, content = message\<rparr>"
  let ?w1 = "snd (getContextForSession ?sid w)"
  let ?w4 = "w2\<lparr>sessions := (sessions w2)(?sid \<mapsto> context0 @ [?u])\<rparr>"
  obtain g w5 where call: "callOpenAIWithRetry E (chatPayload (context0 @ [?u])) 3 ?w4 = (g, w5)"
    by (cases "callOpenAIWithRetry E (chatPayload (context0 @ [?u])) 3 ?w4")
  with fail have g: "g = Inl e" by simp
  note fr5 = gateway_frame[OF call]
  have get2: "getContextForSession ?sid w2 = (context0, w2)"
    using ctx by (rule getContext_existing)
  have run: "handleChatMessage E message sessionId w = (Inl e, w5)"
    using comp get2 call g by (simp add: handleChatMessage_def Let_def)
  have w1: "mails ?w1 = mails w \<and> issues ?w1 = issues w \<and>
            (\<forall>k. k \<noteq> ?sid \<longrightarrow> sessions ?w1 k = sessions w k) \<and>
            sessions ?w1 ?sid = Some (case sessions w ?sid of None \<Rightarrow> [systemMessage] | Some c \<Rightarrow> c)"
    by (simp add: getContextForSession_def split: option.splits)
  note eff = summarize_effect[OF comp]
  have frame: "\<forall>k. k \<noteq> ?sid \<longrightarrow> sessions w2 k = sessions w k"
    using eff w1 by auto
  have new: "sessions w ?sid = None \<longrightarrow> context0 = [systemMessage]"
    using eff w1 ctx by auto
  have old: "\<forall>c. sessions w ?sid = Some c \<longrightarrow>
            (length (drop 1 c) \<le> 20 \<longrightarrow> context0 = c) \<and>
            (20 < length (drop 1 c) \<longrightarrow> (\<exists>r. context0 = [hd c, summaryMessage r]))"
  proof (intro allI impI conjI)
    fix c assume c: "sessions w ?sid = Some c" and short: "length (drop 1 c) \<le> 20"
    from c have "getContextForSession ?sid w = (c, w)" by (rule getContext_existing)
    with comp summarize_short[OF c short, of E] ctx c show "context0 = c" by simp
  next
    fix c assume c: "sessions w ?sid = Some c" and long: "20 < length (drop 1 c)"
    from c have same: "getContextForSession ?sid w = (c, w)" by (rule getContext_existing)
    obtain g1 v where call1: "callOpenAIWithRetry E (summaryPayload (drop 1 c)) 3 w = (g1, v)"
      by (cases "callOpenAIWithRetry E (summaryPayload (drop 1 c)) 3 w")
    from long have hd0: "c ! 0 = hd c" by (cases c) simp_all
    from comp same summarize_long[OF c long, of E] call1
    have "(Inr (), w2) = (case g1 of Inl err \<Rightarrow> (Inl err, v) | Inr None \<Rightarrow> (Inl TypeError, v)
             | Inr (Some r) \<Rightarrow> (Inr (), v\<lparr>sessions := (sessions v)(?sid \<mapsto> [c ! 0, summaryMessage r])\<rparr>))"
      by simp
    then obtain r where "w2 = v\<lparr>sessions := (sessions v)(?sid \<mapsto> [c ! 0, summaryMessage r])\<rparr>"
      by (auto split: sum.splits option.splits)
    with ctx hd0 show "\<exists>r. context0 = [hd c, summaryMessage r]" by auto
  qed
  from run fr5 eff w1 frame new old show ?thesis
    by simp
qed

theorem chat_failure_keeps_history_witness:
  "summarizeContextIfNeeded always_limited (sessionKey s1)
     (snd (getContextForSession (sessionKey s1) start)) = (Inr (), fresh) \<and>
   sessions fresh (sessionKey s1) = Some [systemMessage] \<and>
   fst (callOpenAIWithRetry always_limited
          (chatPayload ([systemMessage] @ [\<lparr>role = User, content = lit ''Hi''\<rparr>])) 3
          (fresh\<lparr>sessions := (sessions fresh)(sessionKey s1 \<mapsto>
                     [systemMessage] @ [\<lparr>role = User, content = lit ''Hi''\<rparr>])\<rparr>))
     = Inl (BackendError (Some 429)) \<and>
   fst (handleChatMessage always_limited (lit ''Hi'') s1 start) = Inl (BackendError (Some 429)) \<and>
   sessions (snd (handleChatMessage always_limited (lit ''Hi'') s1 start)) s1
     = Some [systemMessage, \<lparr>role = User, content = lit ''Hi''\<rparr>]"
proof -
  have key: "sessionKey s1 = s1"
    by (simp add: sessionKey_def s1_def lit_def)
  have w1: "snd (getContextForSession s1 start) = fresh"
    by (simp add: getContextForSession_def start_def fresh_def)
  have f: "sessions fresh s1 = Some [systemMessage]"
    by (simp add: fresh_def)
  have comp: "summarizeContextIfNeeded always_limited (sessionKey s1)
                (snd (getContextForSession (sessionKey s1) start)) = (Inr (), fresh)"
    unfolding key w1 by (rule summarize_short[OF f]) simp
  have ctx: "sessions fresh (sessionKey s1) = Some [systemMessage]"
    unfolding key by (rule f)
  have fail: "fst (callOpenAIWithRetry always_limited
          (chatPayload ([systemMessage] @ [\<lparr>role = User, content = lit ''Hi''\<rparr>])) 3
          (fresh\<lparr>sessions := (sessions fresh)(sessionKey s1 \<mapsto>
                     [systemMessage] @ [\<lparr>role = User, content = lit ''Hi''\<rparr>])\<rparr>))
     = Inl (BackendError (Some 429))"
    by (simp add: callOpenAIWithRetry_def callLoop.simps always_limited_def)
  from chat_failure_keeps_history[OF comp ctx fail] comp ctx fail key
  show ?thesis by simp
qed

lemma completeTurn_sessions:
  "sessions (snd (completeTurn E sid context resp w)) =
     (sessions w)(sid \<mapsto> context @ [\<lparr>role = Assistant, content = reply (fst (completeTurn E sid context resp w))\<rparr>]) \<or>
   sessions (snd (completeTurn E sid context resp w)) = (sessions w)(sid \<mapsto> [systemMessage])"
  by (simp add: completeTurn_def Let_def split: jira_outcome.splits)

lemma sessions_ok_upd:
  "sessions_ok w \<Longrightarrow> c \<noteq> [] \<Longrightarrow> hd c = systemMessage \<Longrightarrow> sessions w' = (sessions w)(sid \<mapsto> c) \<Longrightarrow>
   sessions_ok w'"
  by (simp add: sessions_ok_def)

lemma sessions_ok_same:
  "sessions_ok w \<Longrightarrow> sessions w' = sessions w \<Longrightarrow> sessions_ok w'"
  by (simp add: sessions_ok_def)

lemma getContext_ok:
  assumes "sessions_ok w"
  shows "sessions_ok (snd (getContextForSession sid w))"
    and "fst (getContextForSession sid w) \<noteq> []"
    and "hd (fst (getContextForSession sid w)) = systemMessage"
    and "sessions (snd (getContextForSession sid w)) sid = Some (fst (getContextForSession sid w))"
  using assms by (auto simp: getContextForSession_def sessions_ok_def split: option.splits)

lemma summarize_ok:
  assumes "sessions_ok w"
  shows "sessions_ok (snd (summarizeContextIfNeeded E sid w))"
proof -
  obtain res w' where run: "summarizeContextIfNeeded E sid w = (res, w')"
    by (cases "summarizeContextIfNeeded E sid w")
  from summarize_effect[OF run]
  consider "sessions w' = sessions w"
    | c r where "sessions w sid = Some c" "sessions w' = (sessions w)(sid \<mapsto> [hd c, summaryMessage r])"
    by blast
  then have "sessions_ok w'"
  proof cases
    case 1
    with assms show ?thesis by (rule sessions_ok_same)
  next
    case 2
    from assms 2(1) have h: "hd c = systemMessage" by (simp add: sessions_ok_def)
    from 2(2) have upd: "sessions w' = (sessions w)(sid \<mapsto> [hd c, summaryMessage r])" .
    show ?thesis by (rule sessions_ok_upd[OF assms _ _ upd]) (simp_all add: h)
  qed
  with run show ?thesis by simp
qed

lemma completeTurn_ok:
  assumes "sessions_ok w" and "ctx \<noteq> []" and "hd ctx = systemMessage"
  shows "sessions_ok (snd (completeTurn E sid ctx resp w))"
  using completeTurn_sessions[of E sid ctx resp w]
proof
  assume "sessions (snd (completeTurn E sid ctx resp w)) =
     (sessions w)(sid \<mapsto> ctx @ [\<lparr>role = Assistant, content = reply (fst (completeTurn E sid ctx resp w))\<rparr>])"
  with assms show ?thesis by (intro sessions_ok_upd[OF assms(1)]) auto
next
  assume "sessions (snd (completeTurn E sid ctx resp w)) = (sessions w)(sid \<mapsto> [systemMessage])"
  with assms show ?thesis by (intro sessions_ok_upd[OF assms(1)]) auto
qed

lemma handle_ok:
  assumes "sessions_ok w"
  shows "sessions_ok (snd (handleChatMessage E message sessionId w))"
proof -
  let ?sid = "sessionKey sessionId"
  let ?u = "\<lparr>role = User, content = message\<rparr>"
  let ?w1 = "snd (getContextForSession ?sid w)"
  have ok1: "sessions_ok ?w1" using assms by (rule getContext_ok)
  obtain res w2 where comp: "summarizeContextIfNeeded E ?sid ?w1 = (res, w2)"
    by (cases "summarizeContextIfNeeded E ?sid ?w1")
  from summarize_ok[OF ok1, of E ?sid] comp have ok2: "sessions_ok w2" by simp
  show ?thesis
  proof (cases res)
    case (Inl err)
    with comp ok2 show ?thesis by (simp add: handleChatMessage_def Let_def)
  next
    case (Inr u)
    obtain context0 w3 where get3: "getContextForSession ?sid w2 = (context0, w3)"
      by (cases "getContextForSession ?sid w2")
    from getContext_ok[OF ok2, of ?sid] get3
    have ok3: "sessions_ok w3" and ne: "context0 \<noteq> []" and hd0: "hd context0 = systemMessage"
      by simp_all
    let ?ctx = "context0 @ [?u]"
    let ?w4 = "w3\<lparr>sessions := (sessions w3)(?sid \<mapsto> ?ctx)\<rparr>"
    have ok4: "sessions_ok ?w4"
      using ne hd0 by (intro sessions_ok_upd[OF ok3, of ?ctx _ ?sid]) simp_all
    obtain g w5 where call: "callOpenAIWithRetry E (chatPayload ?ctx) 3 ?w4 = (g, w5)"
      by (cases "callOpenAIWithRetry E (chatPayload ?ctx) 3 ?w4")
    from gateway_frame[OF call] ok4 have ok5: "sessions_ok w5"
      by (intro sessions_ok_same[OF ok4]) simp
    have ok6: "sessions_ok (snd (completeTurn E ?sid ?ctx resp w5))" for resp
      using ne hd0 by (intro completeTurn_ok[OF ok5]) simp_all
    have run: "handleChatMessage E message sessionId w =
                 (case g of Inl err \<Rightarrow> (Inl err, w5) | Inr None \<Rightarrow> (Inl TypeError, w5)
                  | Inr (Some resp) \<Rightarrow>
                      (Inr (fst (completeTurn E ?sid ?ctx resp w5)),
                       snd (completeTurn E ?sid ?ctx resp w5)))"
      using comp Inr get3 call
      by (simp add: handleChatMessage_def Let_def split: sum.splits option.splits prod.splits)
    show ?thesis
    proof (cases g)
      case (Inl err)
      with run ok5 show ?thesis by simp
    next
      case gr: (Inr opt)
      show ?thesis
      proof (cases opt)
        case None
        with run gr ok5 show ?thesis by simp
      next
        case (Some resp)
        with run gr ok6[of resp] show ?thesis by simp
      qed
    qed
  qed
qed

lemma reset_ok:
  "sessions_ok w \<Longrightarrow> sessions_ok (resetSession sid w)"
  by (simp add: resetSession_def sessions_ok_def)

text \<open>
  C7. The session map of the initial state satisfies the invariant (every stored session is
  non-empty and starts with the fixed system message), and each operation keeps it:
  looking a session up or creating it, compaction, a whole turn (with its appends of the
  user and the assistant message and its reset after a posted issue, and however it ends),
  and the reset of a session.
\<close>

theorem first_message_invariant:
  "sessions_ok start \<and>
   (sessions_ok w \<longrightarrow>
      sessions_ok (snd (getContextForSession sid w)) \<and>
      sessions_ok (snd (summarizeContextIfNeeded E sid w)) \<and>
      sessions_ok (snd (handleChatMessage E message sessionId w)) \<and>
      sessions_ok (resetSession sid w))"
proof (intro conjI impI)
  show "sessions_ok start"
    by (simp add: sessions_ok_def start_def)
next
  assume ok: "sessions_ok w"
  from ok show "sessions_ok (snd (getContextForSession sid w))" by (rule getContext_ok)
  from ok show "sessions_ok (snd (summarizeContextIfNeeded E sid w))" by (rule summarize_ok)
  from ok show "sessions_ok (snd (handleChatMessage E message sessionId w))" by (rule handle_ok)
  from ok show "sessions_ok (resetSession sid w)" by (rule reset_ok)
qed

theorem first_message_invariant_witness:
  "sessions_ok fresh \<and>
   sessions_ok (snd (getContextForSession s1 fresh)) \<and>
   sessions_ok (snd (summarizeContextIfNeeded answers s1 fresh)) \<and>
   sessions_ok (snd (handleChatMessage answers (lit ''Hi'') s1 fresh)) \<and>
   sessions_ok (resetSession s1 fresh)"
proof -
  have ok: "sessions_ok fresh"
    by (simp add: sessions_ok_def fresh_def start_def)
  from first_message_invariant[of fresh s1 answers "lit ''Hi''" s1] ok
  show ?thesis by simp
qed

lemma handle_sessions:
  "(\<forall>k. k \<noteq> sessionKey sessionId \<longrightarrow>
       sessions (snd (handleChatMessage E message sessionId w)) k = sessions w k) \<and>
   sessions (snd (handleChatMessage E message sessionId w)) (sessionKey sessionId) \<noteq> None"
proof -
  let ?sid = "sessionKey sessionId"
  let ?u = "\<lparr>role = User, content = message\<rparr>"
  let ?w1 = "snd (getContextForSession ?sid w)"
  let ?P = "\<lambda>v. (\<forall>k. k \<noteq> ?sid \<longrightarrow> sessions v k = sessions w k) \<and> sessions v ?sid \<noteq> None"
  have p1: "?P ?w1"
    by (simp add: getContextForSession_def split: option.splits)
  obtain res w2 where comp: "summarizeContextIfNeeded E ?sid ?w1 = (res, w2)"
    by (cases "summarizeContextIfNeeded E ?sid ?w1")
  from summarize_effect[OF comp] p1 have p2: "?P w2" by auto
  show ?thesis
  proof (cases res)
    case (Inl err)
    with comp p2 show ?thesis by (simp add: handleChatMessage_def Let_def)
  next
    case (Inr u)
    from p2 obtain context0 where c0: "sessions w2 ?sid = Some context0" by auto
    then have get3: "getContextForSession ?sid w2 = (context0, w2)"
      by (rule getContext_existing)
    let ?ctx = "context0 @ [?u]"
    let ?w4 = "w2\<lparr>sessions := (sessions w2)(?sid \<mapsto> ?ctx)\<rparr>"
    have p4: "?P ?w4" using p2 by simp
    obtain g w5 where call: "callOpenAIWithRetry E (chatPayload ?ctx) 3 ?w4 = (g, w5)"
      by (cases "callOpenAIWithRetry E (chatPayload ?ctx) 3 ?w4")
    from gateway_frame[OF call] p4 have p5: "?P w5" by simp
    have p6: "?P (snd (completeTurn E ?sid ?ctx resp w5))" for resp
      using completeTurn_sessions[of E ?sid ?ctx resp w5] p5 by auto
    have run: "handleChatMessage E message sessionId w =
                 (case g of Inl err \<Rightarrow> (Inl err, w5) | Inr None \<Rightarrow> (Inl TypeError, w5)
                  | Inr (Some resp) \<Rightarrow>
                      (Inr (fst (completeTurn E ?sid ?ctx resp w5)),
                       snd (completeTurn E ?sid ?ctx resp w5)))"
      using comp Inr get3 call
      by (simp add: handleChatMessage_def Let_def split: sum.splits option.splits prod.splits)
    show ?thesis
    proof (cases g)
      case (Inl err)
      with run p5 show ?thesis by simp
    next
      case gr: (Inr opt)
      show ?thesis
      proof (cases opt)
        case None
        with run gr p5 show ?thesis by simp
      next
        case (Some resp)
        with run gr p6[of resp] show ?thesis by simp
      qed
    qed
  qed
qed

section \<open>Properties of the string functions\<close>

lemma canon_eq_lt [simp]: "canon c = 60 \<longleftrightarrow> c = 60"
  by (auto simp: canon_def)

lemma canon_eq_lb [simp]: "canon c = 91 \<longleftrightarrow> c = 91"
  by (auto simp: canon_def)

lemma canon_eq_gt [simp]: "canon c = 62 \<longleftrightarrow> c = 62"
  by (auto simp: canon_def)

lemma canon_special [simp]: "canon 60 = 60" "canon 62 = 62" "canon 91 = 91"
  by (simp_all add: canon_def)

lemma canon_eq_lt' [simp]: "60 = canon c \<longleftrightarrow> c = 60"
  by (auto simp: canon_def)

lemma canon_eq_lb' [simp]: "91 = canon c \<longleftrightarrow> c = 91"
  by (auto simp: canon_def)

lemma canon_idem [simp]: "canon (canon c) = canon c"
  by (auto simp: canon_def)

lemma ci_prefix_same:
  "map canon m = map canon pat \<Longrightarrow> ci_prefix pat (m @ s)"
proof (induction pat arbitrary: m)
  case Nil
  then show ?case by simp
next
  case (Cons p ps)
  then obtain c cs where "m = c # cs" by (cases m) auto
  with Cons show ?case by simp
qed

lemma ci_prefix_length:
  "ci_prefix pat s \<Longrightarrow> length pat \<le> length s"
  by (induction pat s rule: ci_prefix.induct) auto

lemma ci_prefix_take:
  "length pat \<le> k \<Longrightarrow> ci_prefix pat (take k s) = ci_prefix pat s"
proof (induction pat s arbitrary: k rule: ci_prefix.induct)
  case (1 s)
  then show ?case by simp
next
  case (2 p ps)
  then show ?case by simp
next
  case (3 p ps c cs)
  then obtain k' where "k = Suc k'" by (cases k) auto
  with 3 show ?case by simp
qed

lemma find_first_found:
  "map canon m = map canon pat \<Longrightarrow>
   (\<forall>n<length run. \<not> ci_prefix pat (drop n (run @ m @ rest))) \<Longrightarrow>
   find_first pat (run @ m @ rest) = Some (run, rest)"
proof (induction run)
  case Nil
  from Nil(1) have len: "length m = length pat"
    by (metis length_map)
  from Nil(1) have pre: "ci_prefix pat (m @ rest)" by (rule ci_prefix_same)
  show ?case
  proof (cases "m @ rest")
    case Nil
    with len pre show ?thesis by simp
  next
    case (Cons c cs)
    with pre have "find_first pat (m @ rest) = Some ([], drop (length pat) (m @ rest))"
      by simp
    with len show ?thesis by simp
  qed
next
  case (Cons c run)
  from Cons.prems(2) have no: "\<not> ci_prefix pat (c # run @ m @ rest)"
    by (auto dest: spec[of _ 0])
  have "\<forall>n<length run. \<not> ci_prefix pat (drop n (run @ m @ rest))"
  proof (intro allI impI)
    fix n assume "n < length run"
    then have "Suc n < length (c # run)" by simp
    with Cons.prems(2) have "\<not> ci_prefix pat (drop (Suc n) ((c # run) @ m @ rest))" by blast
    then show "\<not> ci_prefix pat (drop n (run @ m @ rest))" by simp
  qed
  with Cons.IH[OF Cons.prems(1)] have "find_first pat (run @ m @ rest) = Some (run, rest)" .
  with no show ?case by simp
qed

lemma regex_exec_unfold:
  "regex_exec opn cls s =
     (case match_here opn cls s of
        Some (cap, rest) \<Rightarrow> Some ([], cap, rest)
      | None \<Rightarrow> (case s of [] \<Rightarrow> None
                 | c # cs \<Rightarrow> map_option (\<lambda>(pre, cap, rest). (c # pre, cap, rest)) (regex_exec opn cls cs)))"
  by (cases s) (simp_all split: option.splits)

lemma regex_exec_found:
  "map canon m = map canon opn \<Longrightarrow>
   find_first cls s = Some (cap, rest) \<Longrightarrow>
   (\<forall>n<length pre. \<not> ci_prefix opn (drop n (pre @ m @ s))) \<Longrightarrow>
   regex_exec opn cls (pre @ m @ s) = Some (pre, cap, rest)"
proof (induction pre)
  case Nil
  from Nil(1) have len: "length m = length opn"
    by (metis length_map)
  from Nil(1) have "ci_prefix opn (m @ s)" by (rule ci_prefix_same)
  with len Nil(2) have "match_here opn cls (m @ s) = Some (cap, rest)"
    by (simp add: match_here_def)
  then show ?case by (subst regex_exec_unfold) simp
next
  case (Cons c pre)
  from Cons.prems(3) have "\<not> ci_prefix opn (c # pre @ m @ s)"
    by (auto dest: spec[of _ 0])
  then have no: "match_here opn cls (c # pre @ m @ s) = None"
    by (simp add: match_here_def)
  have "\<forall>n<length pre. \<not> ci_prefix opn (drop n (pre @ m @ s))"
  proof (intro allI impI)
    fix n assume "n < length pre"
    then have "Suc n < length (c # pre)" by simp
    with Cons.prems(3) have "\<not> ci_prefix opn (drop (Suc n) ((c # pre) @ m @ s))" by blast
    then show "\<not> ci_prefix opn (drop n (pre @ m @ s))" by simp
  qed
  with Cons.IH[OF Cons.prems(1,2)] have "regex_exec opn cls (pre @ m @ s) = Some (pre, cap, rest)" .
  with no show ?case by simp
qed

lemma regex_exec_skip:
  "60 \<notin> set a \<Longrightarrow>
   regex_exec (60 # ps) cls (a @ s) =
     map_option (\<lambda>(pre, cap, rest). (a @ pre, cap, rest)) (regex_exec (60 # ps) cls s)"
proof (induction a)
  case Nil
  then show ?case by (simp add: option.map_ident split_def)
next
  case (Cons c a)
  then have "match_here (60 # ps) cls (c # a @ s) = None"
    by (auto simp: match_here_def)
  with Cons show ?case
    by (simp add: option.map_comp comp_def split_def)
qed

lemma find_first_skip:
  "60 \<notin> set a \<Longrightarrow>
   find_first (60 # ps) (a @ s) =
     map_option (\<lambda>(run, rest). (a @ run, rest)) (find_first (60 # ps) s)"
proof (induction a)
  case Nil
  then show ?case by (simp add: option.map_ident split_def)
next
  case (Cons c a)
  then show ?case
    by (auto simp: option.map_comp comp_def split_def)
qed

lemma regex_exec_no_lt:
  "60 \<notin> set s \<Longrightarrow> regex_exec (60 # ps) cls s = None"
  using regex_exec_skip[of s ps cls "[]"] by (simp add: match_here_def)


lemma no_lt_no_prefix:
  "60 \<notin> set run \<Longrightarrow> \<forall>n<length run. \<not> ci_prefix (60 # ps) (drop n (run @ s))"
proof (intro allI impI)
  fix n assume a: "60 \<notin> set run" and n: "n < length run"
  then have "drop n (run @ s) = run ! n # drop (Suc n) run @ s"
    by (simp add: Cons_nth_drop_Suc)
  moreover from a n have "run ! n \<noteq> 60" by (metis nth_mem)
  ultimately show "\<not> ci_prefix (60 # ps) (drop n (run @ s))" by simp
qed

lemma trimStart_decomp:
  "\<exists>l. s = l @ trimStart s \<and> (\<forall>c\<in>set l. isSpace c)"
  unfolding trimStart_def
  by (rule exI[of _ "takeWhile isSpace s"]) (auto dest: set_takeWhileD)

lemma trimEnd_decomp:
  "\<exists>r. s = trimEnd s @ r \<and> (\<forall>c\<in>set r. isSpace c)"
proof -
  have "rev s = takeWhile isSpace (rev s) @ dropWhile isSpace (rev s)" by simp
  then have "s = rev (dropWhile isSpace (rev s)) @ rev (takeWhile isSpace (rev s))"
    by (metis rev_append rev_rev_ident)
  then show ?thesis
    unfolding trimEnd_def
    by (intro exI[of _ "rev (takeWhile isSpace (rev s))"]) (auto dest: set_takeWhileD)
qed

lemma trimStart_hd:
  "trimStart s \<noteq> [] \<Longrightarrow> \<not> isSpace (hd (trimStart s))"
  unfolding trimStart_def by (rule hd_dropWhile)

lemma trimEnd_last:
  "trimEnd s \<noteq> [] \<Longrightarrow> \<not> isSpace (last (trimEnd s))"
  unfolding trimEnd_def by (simp add: last_rev hd_dropWhile)

lemma trimEnd_hd:
  "trimEnd s \<noteq> [] \<Longrightarrow> hd (trimEnd s) = hd s"
  using trimEnd_decomp[of s] by (metis hd_append2)

lemma trim_decomp:
  "(\<exists>l r. s = l @ trim s @ r \<and> (\<forall>c\<in>set l. isSpace c) \<and> (\<forall>c\<in>set r. isSpace c)) \<and>
   (trim s \<noteq> [] \<longrightarrow> \<not> isSpace (hd (trim s)) \<and> \<not> isSpace (last (trim s)))"
proof (intro conjI impI)
  from trimStart_decomp[of s] obtain l where l: "s = l @ trimStart s" "\<forall>c\<in>set l. isSpace c"
    by blast
  from trimEnd_decomp[of "trimStart s"] obtain r
    where r: "trimStart s = trim s @ r" "\<forall>c\<in>set r. isSpace c"
    unfolding trim_def by blast
  from l r have "s = l @ trim s @ r" by simp
  with l r show "\<exists>l r. s = l @ trim s @ r \<and> (\<forall>c\<in>set l. isSpace c) \<and> (\<forall>c\<in>set r. isSpace c)"
    by blast
next
  assume ne: "trim s \<noteq> []"
  then have ne': "trimStart s \<noteq> []" by (auto simp: trim_def trimEnd_def)
  from ne have "hd (trim s) = hd (trimStart s)"
    unfolding trim_def by (rule trimEnd_hd)
  with trimStart_hd[OF ne'] show "\<not> isSpace (hd (trim s))" by simp
next
  assume "trim s \<noteq> []"
  then show "\<not> isSpace (last (trim s))"
    unfolding trim_def by (rule trimEnd_last)
qed

lemma no_prefix_Nil:
  "\<forall>n<length ([]::jsstring). \<not> ci_prefix pat (drop n ([] @ c))"
  by simp

lemma no_prefix_Cons:
  assumes "\<not> ci_prefix pat (x # b @ c)"
    and "\<forall>n<length b. \<not> ci_prefix pat (drop n (b @ c))"
  shows "\<forall>n<length (x # b). \<not> ci_prefix pat (drop n ((x # b) @ c))"
proof (intro allI impI)
  fix n assume "n < length (x # b)"
  then show "\<not> ci_prefix pat (drop n ((x # b) @ c))"
    using assms by (cases n) simp_all
qed

text \<open>
  C9. Let a text contain an opening tag of \<^verbatim>\<open>su\<close>, \<^verbatim>\<open>de\<close> or \<^verbatim>\<open>ca\<close> (in any letter case)
  with no opening tag of that name starting before it, then some inner text, then a closing
  tag of that name (in any letter case) that is the first one after the opening tag. Then
  \<^verbatim>\<open>get\<close> returns the inner text trimmed, and \<^verbatim>\<open>extractTicketFields\<close> returns it as the
  field of that tag: \<^verbatim>\<open>summary\<close> for \<^verbatim>\<open>su\<close>, \<^verbatim>\<open>description\<close> for \<^verbatim>\<open>de\<close>, \<^verbatim>\<open>category\<close> for
  \<^verbatim>\<open>ca\<close>. Trimmed means: the inner text is white space, the result, white space, and a
  non-empty result neither starts nor ends with white space.
\<close>

theorem get_first_pair_trimmed:
  assumes "tag = lit ''su'' \<or> tag = lit ''de'' \<or> tag = lit ''ca''"
    and "map canon opn = map canon (lit ''<'' @ tag @ lit ''>'')"
    and "map canon cls = map canon (lit ''</'' @ tag @ lit ''>'')"
    and "\<forall>n<length pre. \<not> ci_prefix (lit ''<'' @ tag @ lit ''>'') (drop n (pre @ opn @ inner @ cls @ rest))"
    and "\<forall>n<length inner. \<not> ci_prefix (lit ''</'' @ tag @ lit ''>'') (drop n (inner @ cls @ rest))"
  shows "get (pre @ opn @ inner @ cls @ rest) tag = Some (trim inner) \<and>
         (tag = lit ''su'' \<longrightarrow>
            summary (extractTicketFields (pre @ opn @ inner @ cls @ rest)) = Some (trim inner)) \<and>
         (tag = lit ''de'' \<longrightarrow>
            description (extractTicketFields (pre @ opn @ inner @ cls @ rest)) = Some (trim inner)) \<and>
         (tag = lit ''ca'' \<longrightarrow>
            category (extractTicketFields (pre @ opn @ inner @ cls @ rest)) = Some (trim inner)) \<and>
         (\<exists>l r. inner = l @ trim inner @ r \<and> (\<forall>c\<in>set l. isSpace c) \<and> (\<forall>c\<in>set r. isSpace c)) \<and>
         (trim inner \<noteq> [] \<longrightarrow> \<not> isSpace (hd (trim inner)) \<and> \<not> isSpace (last (trim inner)))"
proof -
  have close: "find_first (lit ''</'' @ tag @ lit ''>'') (inner @ cls @ rest) = Some (inner, rest)"
    using assms(3,5) by (rule find_first_found)
  have "regex_exec (lit ''<'' @ tag @ lit ''>'') (lit ''</'' @ tag @ lit ''>'')
          (pre @ opn @ inner @ cls @ rest) = Some (pre, inner, rest)"
    using assms(2) close assms(4) by (rule regex_exec_found)
  then have g: "get (pre @ opn @ inner @ cls @ rest) tag = Some (trim inner)"
    by (simp add: get_def)
  have su: "tag = lit ''su'' \<longrightarrow>
            summary (extractTicketFields (pre @ opn @ inner @ cls @ rest)) = Some (trim inner)"
    using g by (auto simp: extractTicketFields_def)
  have de: "tag = lit ''de'' \<longrightarrow>
            description (extractTicketFields (pre @ opn @ inner @ cls @ rest)) = Some (trim inner)"
    using g by (auto simp: extractTicketFields_def)
  have ca: "tag = lit ''ca'' \<longrightarrow>
            category (extractTicketFields (pre @ opn @ inner @ cls @ rest)) = Some (trim inner)"
    using g by (auto simp: extractTicketFields_def)
  from g su de ca trim_decomp[of inner] show ?thesis by blast
qed

theorem get_first_pair_trimmed_witness:
  "extractTicketFields (lit ''a <SU>  x y </su><CA> Net </ca><de> d </De>'')
     = \<lparr>summary = Some (lit ''x y''), description = Some (lit ''d''), category = Some (lit ''Net'')\<rparr> \<and>
   get (lit ''a <SU>  x y </su><CA> Net </ca><de> d </De>'') (lit ''su'') = Some (lit ''x y'') \<and>
   trim (lit ''  x y '') = lit ''x y'' \<and>
   map canon (lit ''<SU>'') = map canon (lit ''<'' @ lit ''su'' @ lit ''>'') \<and>
   map canon (lit ''</De>'') = map canon (lit ''</'' @ lit ''de'' @ lit ''>'') \<and>
   (lit ''ca'' = lit ''su'' \<or> lit ''ca'' = lit ''de'' \<or> lit ''ca'' = lit ''ca'')"
proof -
  have w_su: "lit ''a '' @ lit ''<SU>'' @ lit ''  x y '' @ lit ''</su>'' @ lit ''<CA> Net </ca><de> d </De>'' = lit ''a <SU>  x y </su><CA> Net </ca><de> d </De>''"
    by (simp add: lit_def)
  have t_su: "trim (lit ''  x y '') = lit ''x y''"
    by (simp add: trim_def trimStart_def trimEnd_def isSpace_def lit_def)
  have tg_su: "lit ''su'' = lit ''su'' \<or> lit ''su'' = lit ''de'' \<or> lit ''su'' = lit ''ca''"
    by simp
  have o_su: "map canon (lit ''<SU>'') = map canon (lit ''<'' @ lit ''su'' @ lit ''>'')"
    by (simp add: lit_def canon_def)
  have c_su: "map canon (lit ''</su>'') = map canon (lit ''</'' @ lit ''su'' @ lit ''>'')"
    by (simp add: lit_def canon_def)
  have pre_su: "lit ''a '' = [97, 32]"
    by (simp add: lit_def)
  have in_su: "lit ''  x y '' = [32, 32, 120, 32, 121, 32]"
    by (simp add: lit_def)
  have p_su: "\<forall>n<length (lit ''a ''). \<not> ci_prefix (lit ''<'' @ lit ''su'' @ lit ''>'')
             (drop n (lit ''a '' @ lit ''<SU>'' @ lit ''  x y '' @ lit ''</su>'' @ lit ''<CA> Net </ca><de> d </De>''))"
    unfolding pre_su
    by (intro no_prefix_Cons no_prefix_Nil) (simp_all add: lit_def canon_def)
  have i_su: "\<forall>n<length (lit ''  x y ''). \<not> ci_prefix (lit ''</'' @ lit ''su'' @ lit ''>'')
             (drop n (lit ''  x y '' @ lit ''</su>'' @ lit ''<CA> Net </ca><de> d </De>''))"
    unfolding in_su
    by (intro no_prefix_Cons no_prefix_Nil) (simp_all add: lit_def canon_def)
  note r_su = get_first_pair_trimmed[OF tg_su o_su c_su p_su i_su, unfolded w_su t_su]
  have w_ca: "lit ''a <SU>  x y </su>'' @ lit ''<CA>'' @ lit '' Net '' @ lit ''</ca>'' @ lit ''<de> d </De>'' = lit ''a <SU>  x y </su><CA> Net </ca><de> d </De>''"
    by (simp add: lit_def)
  have t_ca: "trim (lit '' Net '') = lit ''Net''"
    by (simp add: trim_def trimStart_def trimEnd_def isSpace_def lit_def)
  have tg_ca: "lit ''ca'' = lit ''su'' \<or> lit ''ca'' = lit ''de'' \<or> lit ''ca'' = lit ''ca''"
    by simp
  have o_ca: "map canon (lit ''<CA>'') = map canon (lit ''<'' @ lit ''ca'' @ lit ''>'')"
    by (simp add: lit_def canon_def)
  have c_ca: "map canon (lit ''</ca>'') = map canon (lit ''</'' @ lit ''ca'' @ lit ''>'')"
    by (simp add: lit_def canon_def)
  have pre_ca: "lit ''a <SU>  x y </su>'' = [97, 32, 60, 83, 85, 62, 32, 32, 120, 32, 121, 32, 60, 47, 115, 117, 62]"
    by (simp add: lit_def)
  have in_ca: "lit '' Net '' = [32, 78, 101, 116, 32]"
    by (simp add: lit_def)
  have p_ca: "\<forall>n<length (lit ''a <SU>  x y </su>''). \<not> ci_prefix (lit ''<'' @ lit ''ca'' @ lit ''>'')
             (drop n (lit ''a <SU>  x y </su>'' @ lit ''<CA>'' @ lit '' Net '' @ lit ''</ca>'' @ lit ''<de> d </De>''))"
    unfolding pre_ca
    by (intro no_prefix_Cons no_prefix_Nil) (simp_all add: lit_def canon_def)
  have i_ca: "\<forall>n<length (lit '' Net ''). \<not> ci_prefix (lit ''</'' @ lit ''ca'' @ lit ''>'')
             (drop n (lit '' Net '' @ lit ''</ca>'' @ lit ''<de> d </De>''))"
    unfolding in_ca
    by (intro no_prefix_Cons no_prefix_Nil) (simp_all add: lit_def canon_def)
  note r_ca = get_first_pair_trimmed[OF tg_ca o_ca c_ca p_ca i_ca, unfolded w_ca t_ca]
  have w_de: "lit ''a <SU>  x y </su><CA> Net </ca>'' @ lit ''<de>'' @ lit '' d '' @ lit ''</De>'' @ [] = lit ''a <SU>  x y </su><CA> Net </ca><de> d </De>''"
    by (simp add: lit_def)
  have t_de: "trim (lit '' d '') = lit ''d''"
    by (simp add: trim_def trimStart_def trimEnd_def isSpace_def lit_def)
  have tg_de: "lit ''de'' = lit ''su'' \<or> lit ''de'' = lit ''de'' \<or> lit ''de'' = lit ''ca''"
    by simp
  have o_de: "map canon (lit ''<de>'') = map canon (lit ''<'' @ lit ''de'' @ lit ''>'')"
    by (simp add: lit_def canon_def)
  have c_de: "map canon (lit ''</De>'') = map canon (lit ''</'' @ lit ''de'' @ lit ''>'')"
    by (simp add: lit_def canon_def)
  have pre_de: "lit ''a <SU>  x y </su><CA> Net </ca>'' = [97, 32, 60, 83, 85, 62, 32, 32, 120, 32, 121, 32, 60, 47, 115, 117, 62, 60, 67, 65, 62, 32, 78, 101, 116, 32, 60, 47, 99, 97, 62]"
    by (simp add: lit_def)
  have in_de: "lit '' d '' = [32, 100, 32]"
    by (simp add: lit_def)
  have p_de: "\<forall>n<length (lit ''a <SU>  x y </su><CA> Net </ca>''). \<not> ci_prefix (lit ''<'' @ lit ''de'' @ lit ''>'')
             (drop n (lit ''a <SU>  x y </su><CA> Net </ca>'' @ lit ''<de>'' @ lit '' d '' @ lit ''</De>'' @ []))"
    unfolding pre_de
    by (intro no_prefix_Cons no_prefix_Nil) (simp_all add: lit_def canon_def)
  have i_de: "\<forall>n<length (lit '' d ''). \<not> ci_prefix (lit ''</'' @ lit ''de'' @ lit ''>'')
             (drop n (lit '' d '' @ lit ''</De>'' @ []))"
    unfolding in_de
    by (intro no_prefix_Cons no_prefix_Nil) (simp_all add: lit_def canon_def)
  note r_de = get_first_pair_trimmed[OF tg_de o_de c_de p_de i_de, unfolded w_de t_de]
  from r_su have a: "get (lit ''a <SU>  x y </su><CA> Net </ca><de> d </De>'') (lit ''su'') = Some (lit ''x y'')"
    and s: "summary (extractTicketFields (lit ''a <SU>  x y </su><CA> Net </ca><de> d </De>'')) = Some (lit ''x y'')"
    by simp_all
  from r_de have d: "description (extractTicketFields (lit ''a <SU>  x y </su><CA> Net </ca><de> d </De>'')) = Some (lit ''d'')"
    by simp
  from r_ca have c: "category (extractTicketFields (lit ''a <SU>  x y </su><CA> Net </ca><de> d </De>'')) = Some (lit ''Net'')"
    by simp
  from s d c have "extractTicketFields (lit ''a <SU>  x y </su><CA> Net </ca><de> d </De>'')
     = \<lparr>summary = Some (lit ''x y''), description = Some (lit ''d''), category = Some (lit ''Net'')\<rparr>"
    by (cases "extractTicketFields (lit ''a <SU>  x y </su><CA> Net </ca><de> d </De>'')") simp
  with a t_su o_su c_de tg_ca show ?thesis by blast
qed

section \<open>Properties of sanitization, extraction and the reply\<close>

lemma not_space_special [simp]: "\<not> isSpace 60" "\<not> isSpace 62" "\<not> isSpace 91"
  by (simp_all add: isSpace_def)

lemma ORDER_COMPLETED_hd: "ORDER_COMPLETED = 91 # tl ORDER_COMPLETED"
  by (simp add: ORDER_COMPLETED_def lit_def)

lemma no_marker_here:
  "91 \<notin> set a \<Longrightarrow> a \<noteq> [] \<Longrightarrow> \<not> isSpace (last a) \<Longrightarrow>
   \<not> ci_prefix ORDER_COMPLETED (dropWhile isSpace (a @ s))"
proof -
  assume a: "91 \<notin> set a" "a \<noteq> []" "\<not> isSpace (last a)"
  then have "last a \<in> set a" by simp
  from this a(3) have d: "dropWhile isSpace (a @ s) = dropWhile isSpace a @ s"
    by (rule dropWhile_append1)
  from a(2,3) have "dropWhile isSpace a \<noteq> []"
    by (metis dropWhile_eq_Nil_conv last_in_set)
  then obtain c cs where c: "dropWhile isSpace a = c # cs" by (cases "dropWhile isSpace a") auto
  then have "c \<in> set a" by (metis list.set_intros(1) set_dropWhileD)
  with a(1) have "c \<noteq> 91" by auto
  then have "\<not> ci_prefix ORDER_COMPLETED (c # cs @ s)"
    by (subst ORDER_COMPLETED_hd) simp
  with d c show ?thesis by simp
qed

lemma replaceOrderCompleted_keeps:
  "91 \<notin> set a \<Longrightarrow> a \<noteq> [] \<Longrightarrow> \<not> isSpace (last a) \<Longrightarrow>
   replaceOrderCompleted (a @ s) = a @ replaceOrderCompleted s"
proof (induction a)
  case Nil
  then show ?case by simp
next
  case (Cons c a)
  from no_marker_here[OF Cons.prems, of s]
  have step: "replaceOrderCompleted ((c # a) @ s) = c # replaceOrderCompleted (a @ s)"
    by simp
  show ?case
  proof (cases "a = []")
    case True
    with step show ?thesis by simp
  next
    case False
    with Cons.prems have "91 \<notin> set a" "\<not> isSpace (last a)" by auto
    with Cons.IH False step show ?thesis by simp
  qed
qed

lemma replaceOrderCompleted_set:
  "set (replaceOrderCompleted s) \<subseteq> set s"
proof (induction s rule: replaceOrderCompleted.induct)
  case 1
  then show ?case by simp
next
  case (2 c cs)
  show ?case
  proof (cases "ci_prefix ORDER_COMPLETED (dropWhile isSpace (c # cs))")
    case True
    let ?t = "dropWhile isSpace (drop (length ORDER_COMPLETED) (dropWhile isSpace (c # cs)))"
    have "set ?t \<subseteq> set (c # cs)"
      by (meson set_dropWhileD set_drop_subset subsetD subsetI)
    with "2.IH"(1)[OF True] True show ?thesis
      by (simp only: replaceOrderCompleted.simps if_True)
  next
    case False
    with "2.IH"(2)[OF False] show ?thesis
      by (simp only: replaceOrderCompleted.simps if_False) auto
  qed
qed

lemma marker_alone: "replaceOrderCompleted ORDER_COMPLETED = []"
  by (simp add: ORDER_COMPLETED_def lit_def canon_def)

lemma trimStart_nonspace:
  "\<not> isSpace c \<Longrightarrow> trimStart (a @ c # s) = trimStart a @ c # s"
  by (simp add: trimStart_def dropWhile_append3)

lemma trimEnd_nonspace:
  "\<not> isSpace c \<Longrightarrow> trimEnd (a @ c # s) = a @ c # trimEnd s"
  by (simp add: trimEnd_def dropWhile_append3)

lemma trimEnd_Nil [simp]: "trimEnd [] = []"
  by (simp add: trimEnd_def)

lemma trimStart_Nil [simp]: "trimStart [] = []"
  by (simp add: trimStart_def)

lemma trimStart_idem [simp]: "trimStart (trimStart s) = trimStart s"
  by (simp add: trimStart_def)

lemma trimStart_set: "set (trimStart s) \<subseteq> set s"
  by (auto simp: trimStart_def dest: set_dropWhileD)

lemma trimEnd_set: "set (trimEnd s) \<subseteq> set s"
  by (auto simp: trimEnd_def dest: set_dropWhileD)

lemma trim_set: "set (trim s) \<subseteq> set s"
  using trimStart_set trimEnd_set unfolding trim_def by blast

lemma startsWith_refl [simp]: "startsWith (pat @ s) pat"
  by (induction pat) auto

lemma str_includes_append:
  "startsWith b pat \<Longrightarrow> str_includes (a @ b) pat"
proof (induction a)
  case Nil
  then show ?case by (cases b) auto
next
  case (Cons c a)
  then show ?case by simp
qed

lemma str_includes_no_hd:
  "p \<notin> set s \<Longrightarrow> \<not> str_includes s (p # ps)"
  by (induction s) auto

lemma toLower_lb [simp]: "toLower c = 91 \<longleftrightarrow> c = 91"
  by (auto simp: toLower_def)

lemma canon_eval [simp]:
  "canon 47 = 47" "canon 115 = 83" "canon 117 = 85" "canon 100 = 68" "canon 101 = 69"
  "canon 99 = 67" "canon 97 = 65" "canon 116 = 84" "canon 105 = 73" "canon 107 = 75"
  by (simp_all add: canon_def)

lemma block_summary:
  assumes "60 \<notin> set P" "60 \<notin> set X"
  shows "get (P @ tag_block X Y Z @ s) (lit ''su'') = Some (trim X)"
  using assms
  by (simp add: get_def tag_block_def lit_def regex_exec_skip find_first_skip match_here_def)

lemma block_description:
  assumes "60 \<notin> set P" "60 \<notin> set X" "60 \<notin> set Y"
  shows "get (P @ tag_block X Y Z @ s) (lit ''de'') = Some (trim Y)"
  using assms
  by (simp add: get_def tag_block_def lit_def regex_exec_skip find_first_skip match_here_def)

lemma block_category:
  assumes "60 \<notin> set P" "60 \<notin> set X" "60 \<notin> set Y" "60 \<notin> set Z"
  shows "get (P @ tag_block X Y Z @ s) (lit ''ca'') = Some (trim Z)"
  using assms
  by (simp add: get_def tag_block_def lit_def regex_exec_skip find_first_skip match_here_def)

lemma block_no_ticket:
  assumes "60 \<notin> set P" "60 \<notin> set X" "60 \<notin> set Y" "60 \<notin> set Z"
  shows "regex_exec (lit ''<ticket>'') (lit ''</ticket>'') (P @ tag_block X Y Z) = None"
  using assms
  by (simp add: tag_block_def lit_def regex_exec_skip find_first_skip match_here_def)

lemma tag_block_set:
  "c \<notin> {60, 62, 47, 115, 117, 100, 101, 99, 97} \<Longrightarrow>
   c \<in> set (tag_block X Y Z) \<longleftrightarrow> c \<in> set X \<or> c \<in> set Y \<or> c \<in> set Z"
  by (auto simp: tag_block_def lit_def)

lemma tag_block_trimStart:
  "trimStart (a @ tag_block X Y Z) = trimStart a @ tag_block X Y Z"
proof -
  obtain t where t: "tag_block X Y Z = 60 # t"
    by (simp add: tag_block_def lit_def)
  show ?thesis unfolding t by (simp add: trimStart_nonspace)
qed

lemma tag_block_trimEnd:
  "trimEnd (a @ tag_block X Y Z) = a @ tag_block X Y Z"
proof -
  have "tag_block X Y Z = butlast (tag_block X Y Z) @ [62]"
    by (simp add: tag_block_def lit_def butlast_append)
  then obtain b where b: "tag_block X Y Z = b @ [62]" ..
  show ?thesis
    unfolding b using trimEnd_nonspace[of 62 "a @ b" "[]"] by simp
qed

lemma toLower_lb' [simp]: "toLower 91 = 91"
  by (simp add: toLower_def)

lemma block_marker_stripped:
  assumes "91 \<notin> set P" "91 \<notin> set X" "91 \<notin> set Y" "91 \<notin> set Z"
  shows "stripOrderCompletedTag (P @ tag_block X Y Z @ ORDER_COMPLETED) = trimStart P @ tag_block X Y Z"
proof -
  let ?B = "tag_block X Y Z"
  have no: "91 \<notin> set (P @ ?B)"
    using assms by (simp add: tag_block_set)
  have ne: "P @ ?B \<noteq> []"
    by (simp add: tag_block_def lit_def)
  have "last (P @ ?B) = 62"
    by (simp add: tag_block_def lit_def)
  then have sp: "\<not> isSpace (last (P @ ?B))" by simp
  from replaceOrderCompleted_keeps[OF no ne sp, of ORDER_COMPLETED]
  have "replaceOrderCompleted (P @ ?B @ ORDER_COMPLETED) = P @ ?B"
    by (simp add: marker_alone)
  moreover have "trimStart (P @ ?B) = trimStart P @ ?B"
    by (rule tag_block_trimStart)
  moreover have "trimEnd (trimStart P @ ?B) = trimStart P @ ?B"
    by (rule tag_block_trimEnd)
  ultimately show ?thesis
    by (simp add: stripOrderCompletedTag_def trim_def)
qed

lemma block_stays:
  assumes "60 \<notin> set P" "60 \<notin> set X" "60 \<notin> set Y" "60 \<notin> set Z"
  shows "stripTicketBlock (trimStart P @ tag_block X Y Z) = trimStart P @ tag_block X Y Z"
proof -
  let ?B = "tag_block X Y Z"
  from assms(1) trimStart_set[of P] have "60 \<notin> set (trimStart P)" by blast
  from block_no_ticket[OF this assms(2-4)]
  have "stripTicketBlock (trimStart P @ ?B) = trim (trimStart P @ ?B)"
    by (simp add: stripTicketBlock_def)
  moreover have "trimStart (trimStart P @ ?B) = trimStart P @ ?B"
    using tag_block_trimStart[of "trimStart P" X Y Z] by simp
  moreover have "trimEnd (trimStart P @ ?B) = trimStart P @ ?B"
    by (rule tag_block_trimEnd)
  ultimately show ?thesis by (simp add: trim_def)
qed

lemma marker_lower: "toLowerCase ORDER_COMPLETED = lit ''[[order_completed]]''"
  by (simp add: ORDER_COMPLETED_def toLowerCase_def toLower_def lit_def)

lemma marker_detected: "isOrderCompleted (a @ ORDER_COMPLETED)"
  unfolding isOrderCompleted_def toLowerCase_def map_append
  using marker_lower str_includes_append[of "map toLower ORDER_COMPLETED" "lit ''[[order_completed]]''" "map toLower a"]
    startsWith_refl[of "lit ''[[order_completed]]''" "[]"]
  by (simp add: toLowerCase_def)

lemma no_bracket_no_marker:
  "91 \<notin> set s \<Longrightarrow> \<not> isOrderCompleted s"
proof -
  assume "91 \<notin> set s"
  then have "91 \<notin> set (toLowerCase s)" by (auto simp: toLowerCase_def)
  moreover have "lit ''[[order_completed]]'' = 91 # lit ''[order_completed]]''"
    by (simp add: lit_def)
  ultimately show ?thesis
    unfolding isOrderCompleted_def by (simp add: str_includes_no_hd)
qed

lemma handle_success:
  assumes "summarizeContextIfNeeded E (sessionKey sessionId)
             (snd (getContextForSession (sessionKey sessionId) w)) = (Inr (), w2)"
    and "sessions w2 (sessionKey sessionId) = Some context0"
    and "callOpenAIWithRetry E (chatPayload (context0 @ [\<lparr>role = User, content = message\<rparr>])) 3
           (w2\<lparr>sessions := (sessions w2)(sessionKey sessionId \<mapsto>
                              context0 @ [\<lparr>role = User, content = message\<rparr>])\<rparr>)
         = (Inr (Some resp), w5)"
  shows "handleChatMessage E message sessionId w =
           (Inr (fst (completeTurn E (sessionKey sessionId)
                        (context0 @ [\<lparr>role = User, content = message\<rparr>]) resp w5)),
            snd (completeTurn E (sessionKey sessionId)
                   (context0 @ [\<lparr>role = User, content = message\<rparr>]) resp w5))"
proof -
  have "getContextForSession (sessionKey sessionId) w2 = (context0, w2)"
    using assms(2) by (rule getContext_existing)
  with assms(1,3) show ?thesis
    by (simp add: handleChatMessage_def Let_def split: prod.splits)
qed

lemma completeTurn_completed:
  assumes "or_else (output_text resp) (lit ''Sorry, I had trouble answering that.'') = text"
    and "isOrderCompleted text"
    and "stripTicketBlock (stripOrderCompletedTag text) = cleaned"
    and "or_else (summary (extractTicketFields text)) defaultSummary = s"
    and "or_else (description (extractTicketFields text))
           (cleaned @ lit ''\<newline>\<newline>(Category: '' @
            or_else (category (extractTicketFields text)) (lit ''Uncategorized'') @ lit '')'') = d"
  shows "fst (completeTurn E sid ctx resp w)
           = \<lparr>reply = cleaned, orderCompleted = True,
              jiraIssueKey = (case createJiraIssue E s d of Created key \<Rightarrow> key | Failed \<Rightarrow> None)\<rparr> \<and>
         issues (snd (completeTurn E sid ctx resp w)) = issues w @ [(s, d)]"
  using assms
  by (auto simp: completeTurn_def Let_def split: jira_outcome.splits)

lemma completeTurn_open:
  assumes "or_else (output_text resp) (lit ''Sorry, I had trouble answering that.'') = text"
    and "\<not> isOrderCompleted text"
    and "stripTicketBlock (stripOrderCompletedTag text) = cleaned"
  shows "completeTurn E sid ctx resp w =
           (\<lparr>reply = cleaned, orderCompleted = False, jiraIssueKey = None\<rparr>,
            w\<lparr>sessions := (sessions w)(sid \<mapsto> ctx @ [\<lparr>role = Assistant, content = cleaned\<rparr>])\<rparr>)"
  using assms
  by (simp add: completeTurn_def Let_def)

lemma tagged_text_eq:
  "tagged_text = [] @ tag_block (lit ''X'') (lit ''Y'') (lit ''Z'') @ ORDER_COMPLETED"
  by (simp add: tagged_text_def tag_block_def ORDER_COMPLETED_def lit_def)

lemma first_turn_compaction:
  "summarizeContextIfNeeded E (sessionKey s1) (snd (getContextForSession (sessionKey s1) start))
     = (Inr (), fresh) \<and>
   sessions fresh (sessionKey s1) = Some [systemMessage]"
proof -
  have key: "sessionKey s1 = s1"
    by (simp add: sessionKey_def s1_def lit_def)
  have w1: "snd (getContextForSession s1 start) = fresh"
    by (simp add: getContextForSession_def start_def fresh_def)
  have f: "sessions fresh s1 = Some [systemMessage]"
    by (simp add: fresh_def)
  have "summarizeContextIfNeeded E s1 fresh = (Inr (), fresh)"
    by (rule summarize_short[OF f]) simp
  with key w1 f show ?thesis by simp
qed

text \<open>
  Against C3 as stated: the backend answers with the three tagged fields followed by the
  terminal marker. The turn is reported as completed, and the reply handed back is the
  tag block itself: only a \<^verbatim>\<open>ticket\<close> element is removed from a reply, the three tags
  outside one are not.
\<close>

theorem tag_block_stays_in_reply:
  "fst (handleChatMessage tagged_reply (lit ''yes'') s1 start)
     = Inr \<lparr>reply = lit ''<su>X</su><de>Y</de><ca>Z</ca>'', orderCompleted = True, jiraIssueKey = None\<rparr> \<and>
   str_includes (lit ''<su>X</su><de>Y</de><ca>Z</ca>'') (lit ''<su>X</su><de>Y</de><ca>Z</ca>'')"
proof -
  let ?u = "\<lparr>role = User, content = lit ''yes''\<rparr>"
  let ?w4 = "fresh\<lparr>sessions := (sessions fresh)(sessionKey s1 \<mapsto> [systemMessage] @ [?u])\<rparr>"
  let ?resp = "\<lparr>output_text = Some tagged_text\<rparr>"
  let ?w5 = "?w4\<lparr>calls := calls ?w4 @ [chatPayload ([systemMessage] @ [?u])]\<rparr>"
  have call: "callOpenAIWithRetry tagged_reply (chatPayload ([systemMessage] @ [?u])) 3 ?w4
                = (Inr (Some ?resp), ?w5)"
    unfolding callOpenAIWithRetry_def
    by (rule callLoop_resolves) (simp_all add: tagged_reply_def)
  note run = handle_success[OF conjunct1[OF first_turn_compaction] conjunct2[OF first_turn_compaction] call]
  have raw: "or_else (output_text ?resp) (lit ''Sorry, I had trouble answering that.'') = tagged_text"
    by (simp add: or_else_def tagged_text_def lit_def)
  have compl: "isOrderCompleted tagged_text"
    unfolding tagged_text_eq by (simp add: marker_detected)
  have "stripOrderCompletedTag tagged_text = trimStart [] @ tag_block (lit ''X'') (lit ''Y'') (lit ''Z'')"
    unfolding tagged_text_eq by (rule block_marker_stripped) (simp_all add: lit_def)
  moreover have "stripTicketBlock (trimStart [] @ tag_block (lit ''X'') (lit ''Y'') (lit ''Z''))
                   = trimStart [] @ tag_block (lit ''X'') (lit ''Y'') (lit ''Z'')"
    by (rule block_stays) (simp_all add: lit_def)
  ultimately have cleaned: "stripTicketBlock (stripOrderCompletedTag tagged_text)
                              = lit ''<su>X</su><de>Y</de><ca>Z</ca>''"
    by (simp add: tag_block_def lit_def)
  have jira: "createJiraIssue tagged_reply a b = Failed" for a b
    by (simp add: tagged_reply_def)
  from completeTurn_completed[OF raw compl cleaned refl refl, of tagged_reply "sessionKey s1" "[systemMessage] @ [?u]" ?w5] jira
  have "fst (completeTurn tagged_reply (sessionKey s1) ([systemMessage] @ [?u]) ?resp ?w5)
          = \<lparr>reply = lit ''<su>X</su><de>Y</de><ca>Z</ca>'', orderCompleted = True, jiraIssueKey = None\<rparr>"
    by simp
  with run have "fst (handleChatMessage tagged_reply (lit ''yes'') s1 start)
     = Inr \<lparr>reply = lit ''<su>X</su><de>Y</de><ca>Z</ca>'', orderCompleted = True, jiraIssueKey = None\<rparr>"
    by simp
  moreover have "str_includes (lit ''<su>X</su><de>Y</de><ca>Z</ca>'') (lit ''<su>X</su><de>Y</de><ca>Z</ca>'')"
    using str_includes_append[of "lit ''<su>X</su><de>Y</de><ca>Z</ca>''" "lit ''<su>X</su><de>Y</de><ca>Z</ca>''" "[]"]
          startsWith_refl[of "lit ''<su>X</su><de>Y</de><ca>Z</ca>''" "[]"]
    by simp
  ultimately show ?thesis by simp
qed

text \<open>
  C3, amended. The backend answers with a text \<open>P\<close>, then the three tagged fields with
  contents \<open>X\<close>, \<open>Y\<close>, \<open>Z\<close>, then the terminal marker, where \<open>P\<close>, \<open>X\<close>, \<open>Y\<close> and
  \<open>Z\<close> contain neither \<^verbatim>\<open><\<close> nor \<^verbatim>\<open>[\<close>. Then the turn returns \<open>orderCompleted\<close> true;
  extraction on the answer gives the trimmed \<open>X\<close>, \<open>Y\<close> and \<open>Z\<close>, which are not part of
  the returned value but make the summary and description of the posted issue; and the
  returned reply is \<open>P\<close> without its leading white space followed by the tag block, which
  stays. The reply no longer contains the marker.
\<close>

theorem tag_block_turn:
  assumes "60 \<notin> set P \<union> set X \<union> set Y \<union> set Z"
    and "91 \<notin> set P \<union> set X \<union> set Y \<union> set Z"
    and "output_text resp = Some (P @ tag_block X Y Z @ ORDER_COMPLETED)"
    and "summarizeContextIfNeeded E (sessionKey sessionId)
           (snd (getContextForSession (sessionKey sessionId) w)) = (Inr (), w2)"
    and "sessions w2 (sessionKey sessionId) = Some context0"
    and "callOpenAIWithRetry E (chatPayload (context0 @ [\<lparr>role = User, content = message\<rparr>])) 3
           (w2\<lparr>sessions := (sessions w2)(sessionKey sessionId \<mapsto>
                              context0 @ [\<lparr>role = User, content = message\<rparr>])\<rparr>)
         = (Inr (Some resp), w5)"
    and "s = or_else (Some (trim X)) defaultSummary"
    and "d = or_else (Some (trim Y))
               (trimStart P @ tag_block X Y Z @ lit ''\<newline>\<newline>(Category: '' @
                or_else (Some (trim Z)) (lit ''Uncategorized'') @ lit '')'')"
  shows "fst (handleChatMessage E message sessionId w)
           = Inr \<lparr>reply = trimStart P @ tag_block X Y Z, orderCompleted = True,
                  jiraIssueKey = (case createJiraIssue E s d of Created key \<Rightarrow> key | Failed \<Rightarrow> None)\<rparr> \<and>
         extractTicketFields (P @ tag_block X Y Z @ ORDER_COMPLETED)
           = \<lparr>summary = Some (trim X), description = Some (trim Y), category = Some (trim Z)\<rparr> \<and>
         issues (snd (handleChatMessage E message sessionId w)) = issues w5 @ [(s, d)] \<and>
         \<not> isOrderCompleted (trimStart P @ tag_block X Y Z)"
proof -
  let ?text = "P @ tag_block X Y Z @ ORDER_COMPLETED"
  let ?cleaned = "trimStart P @ tag_block X Y Z"
  from assms(1) have lt: "60 \<notin> set P" "60 \<notin> set X" "60 \<notin> set Y" "60 \<notin> set Z" by auto
  from assms(2) have lb: "91 \<notin> set P" "91 \<notin> set X" "91 \<notin> set Y" "91 \<notin> set Z" by auto
  have "ORDER_COMPLETED \<noteq> []"
    by (simp add: ORDER_COMPLETED_def lit_def)
  then have raw: "or_else (output_text resp) (lit ''Sorry, I had trouble answering that.'') = ?text"
    using assms(3) by (simp add: or_else_def)
  have compl: "isOrderCompleted ?text"
    using marker_detected[of "P @ tag_block X Y Z"] by simp
  have cleaned: "stripTicketBlock (stripOrderCompletedTag ?text) = ?cleaned"
    using block_marker_stripped[OF lb] block_stays[OF lt] by simp
  have fields: "extractTicketFields ?text
           = \<lparr>summary = Some (trim X), description = Some (trim Y), category = Some (trim Z)\<rparr>"
    using block_summary[OF lt(1,2)] block_description[OF lt(1-3)] block_category[OF lt]
    by (simp add: extractTicketFields_def)
  have s: "or_else (summary (extractTicketFields ?text)) defaultSummary = s"
    using assms(7) fields by simp
  have d: "or_else (description (extractTicketFields ?text))
           (?cleaned @ lit ''\<newline>\<newline>(Category: '' @
            or_else (category (extractTicketFields ?text)) (lit ''Uncategorized'') @ lit '')'') = d"
    using assms(8) fields by simp
  from lb(1) trimStart_set[of P] have "91 \<notin> set (trimStart P)" by blast
  with lb have "91 \<notin> set ?cleaned" by (simp add: tag_block_set)
  then have gone: "\<not> isOrderCompleted ?cleaned" by (rule no_bracket_no_marker)
  note run = handle_success[OF assms(4,5,6)]
  from completeTurn_completed[OF raw compl cleaned s d, of E "sessionKey sessionId"
         "context0 @ [\<lparr>role = User, content = message\<rparr>]" w5]
       run fields gone
  show ?thesis by simp
qed

theorem tag_block_turn_witness:
  "60 \<notin> set (lit ''Done. '') \<union> set (lit '' Printer '') \<union> set (lit ''jam'') \<union> set (lit ''Hardware'') \<and>
   91 \<notin> set (lit ''Done. '') \<union> set (lit '' Printer '') \<union> set (lit ''jam'') \<union> set (lit ''Hardware'') \<and>
   extractTicketFields (lit ''Done. '' @ tag_block (lit '' Printer '') (lit ''jam'') (lit ''Hardware'') @ ORDER_COMPLETED)
     = \<lparr>summary = Some (lit ''Printer''), description = Some (lit ''jam''), category = Some (lit ''Hardware'')\<rparr> \<and>
   fst (handleChatMessage
          \<lparr>responses_create = (\<lambda>n p. Resolves \<lparr>output_text =
               Some (lit ''Done. '' @ tag_block (lit '' Printer '') (lit ''jam'') (lit ''Hardware'') @ ORDER_COMPLETED)\<rparr>),
           createJiraIssue = (\<lambda>s d. Failed)\<rparr>
          (lit ''yes'') s1 start)
     = Inr \<lparr>reply = lit ''Done. '' @ tag_block (lit '' Printer '') (lit ''jam'') (lit ''Hardware''),
            orderCompleted = True, jiraIssueKey = None\<rparr>"
proof -
  let ?text = "lit ''Done. '' @ tag_block (lit '' Printer '') (lit ''jam'') (lit ''Hardware'') @ ORDER_COMPLETED"
  let ?E = "\<lparr>responses_create = (\<lambda>n p. Resolves \<lparr>output_text = Some ?text\<rparr>),
             createJiraIssue = (\<lambda>s d. Failed)\<rparr>"
  let ?u = "\<lparr>role = User, content = lit ''yes''\<rparr>"
  let ?w4 = "fresh\<lparr>sessions := (sessions fresh)(sessionKey s1 \<mapsto> [systemMessage] @ [?u])\<rparr>"
  let ?resp = "\<lparr>output_text = Some ?text\<rparr>"
  let ?w5 = "?w4\<lparr>calls := calls ?w4 @ [chatPayload ([systemMessage] @ [?u])]\<rparr>"
  have lt: "60 \<notin> set (lit ''Done. '') \<union> set (lit '' Printer '') \<union> set (lit ''jam'') \<union> set (lit ''Hardware'')"
    by (simp add: lit_def)
  have lb: "91 \<notin> set (lit ''Done. '') \<union> set (lit '' Printer '') \<union> set (lit ''jam'') \<union> set (lit ''Hardware'')"
    by (simp add: lit_def)
  have out: "output_text ?resp = Some ?text" by simp
  have call: "callOpenAIWithRetry ?E (chatPayload ([systemMessage] @ [?u])) 3 ?w4
                = (Inr (Some ?resp), ?w5)"
    unfolding callOpenAIWithRetry_def
    by (rule callLoop_resolves) simp_all
  note inst = tag_block_turn[OF lt lb out conjunct1[OF first_turn_compaction]
                conjunct2[OF first_turn_compaction] call refl refl]
  have t: "trim (lit '' Printer '') = lit ''Printer''" "trim (lit ''jam'') = lit ''jam''"
          "trim (lit ''Hardware'') = lit ''Hardware''" "trimStart (lit ''Done. '') = lit ''Done. ''"
    by (simp_all add: trim_def trimStart_def trimEnd_def isSpace_def lit_def)
  from inst lt lb show ?thesis by (simp add: t)
qed

lemma get_no_lt:
  "60 \<notin> set s \<Longrightarrow> get s tag = None"
proof -
  assume "60 \<notin> set s"
  then have "regex_exec (60 # tag @ lit ''>'') (lit ''</'' @ tag @ lit ''>'') s = None"
    by (rule regex_exec_no_lt)
  moreover have "lit ''<'' @ tag @ lit ''>'' = 60 # tag @ lit ''>''"
    by (simp add: lit_def)
  ultimately show ?thesis by (simp add: get_def)
qed

lemma ci_prefix_cut:
  "length pat \<le> length a \<Longrightarrow> ci_prefix pat (a @ s) = ci_prefix pat a"
  using ci_prefix_take[of pat "length a" "a @ s"] ci_prefix_take[of pat "length a" a] by simp

lemma ci_same_mem:
  assumes "map canon a = map canon b"
  shows "91 \<in> set a \<longleftrightarrow> 91 \<in> set b"
proof -
  have "91 \<in> set a \<longleftrightarrow> 91 \<in> set (map canon a)" for a
    by (auto simp: image_iff)
  with assms show ?thesis by metis
qed

lemma ci_same_hd:
  assumes "map canon a = map canon (60 # b)"
  shows "\<exists>t. a = 60 # t"
  using assms by (cases a) auto

lemma ci_same_last:
  assumes "map canon a = map canon (b @ [62])"
  shows "\<exists>t. a = t @ [62]"
proof -
  from assms have ne: "a \<noteq> []" by auto
  from assms have "last (map canon a) = 62" by simp
  with ne have "last a = 62" by (simp add: last_map)
  with ne have "a = butlast a @ [62]" by (metis append_butlast_last_id)
  then show ?thesis ..
qed

text \<open>
  Against C4 as stated: a summary tag outside a \<^verbatim>\<open>ticket\<close> element survives both
  stripping functions, and extraction on the stripped text finds it.
\<close>

theorem tags_outside_ticket_survive:
  "extractTicketFields (stripTicketBlock (stripOrderCompletedTag (lit ''<su>X</su>'')))
     = \<lparr>summary = Some (lit ''X''), description = None, category = None\<rparr>"
proof -
  have "replaceOrderCompleted (lit ''<su>X</su>'' @ []) = lit ''<su>X</su>'' @ replaceOrderCompleted []"
    by (rule replaceOrderCompleted_keeps) (simp_all add: lit_def)
  then have a: "stripOrderCompletedTag (lit ''<su>X</su>'') = lit ''<su>X</su>''"
    by (simp add: stripOrderCompletedTag_def trim_def trimStart_def trimEnd_def lit_def)
  have b: "stripTicketBlock (lit ''<su>X</su>'') = lit ''<su>X</su>''"
    by (simp add: stripTicketBlock_def match_here_def trim_def trimStart_def trimEnd_def lit_def)
  have c: "extractTicketFields (lit ''<su>X</su>'')
             = \<lparr>summary = Some (lit ''X''), description = None, category = None\<rparr>"
    by (simp add: extractTicketFields_def get_def match_here_def trim_def trimStart_def trimEnd_def
          isSpace_def lit_def)
  from a b c show ?thesis by simp
qed

text \<open>
  C4, amended. Let a text consist of a part without \<^verbatim>\<open><\<close> and \<^verbatim>\<open>[\<close>, an opening
  \<^verbatim>\<open>ticket\<close> tag (any letter case), a body without \<^verbatim>\<open>[\<close>, the first closing
  \<^verbatim>\<open>ticket\<close> tag after the opening one, and a rest without \<^verbatim>\<open><\<close>. Then the two stripping
  functions leave the trimmed text around the ticket element (the rest with its markers
  removed), and extraction on that yields \<^verbatim>\<open>null\<close> for all three fields.
\<close>

theorem ticket_block_sanitized:
  assumes "60 \<notin> set pre \<union> set rest"
    and "91 \<notin> set pre \<union> set body"
    and "map canon opn = map canon (lit ''<ticket>'')"
    and "map canon cls = map canon (lit ''</ticket>'')"
    and "\<forall>n<length body. \<not> ci_prefix (lit ''</ticket>'') (drop n (body @ cls))"
  shows "stripTicketBlock (stripOrderCompletedTag (pre @ opn @ body @ cls @ rest))
           = trim (trimStart pre @ trimEnd (replaceOrderCompleted rest)) \<and>
         extractTicketFields (stripTicketBlock (stripOrderCompletedTag (pre @ opn @ body @ cls @ rest)))
           = \<lparr>summary = None, description = None, category = None\<rparr>"
proof -
  let ?T = "lit ''<ticket>''" and ?T' = "lit ''</ticket>''"
  let ?R = "replaceOrderCompleted rest"
  let ?a = "pre @ opn @ body @ cls"
  have T: "?T = 60 # lit ''ticket>''" and T': "?T' = lit ''</ticket'' @ [62]"
    by (simp_all add: lit_def)
  from assms(3) obtain o' where o': "opn = 60 # o'"
    unfolding T by (blast dest: ci_same_hd)
  from assms(4) obtain c' where c': "cls = c' @ [62]"
    unfolding T' by (blast dest: ci_same_last)
  from assms(4) have lenc: "length cls = length ?T'" by (metis length_map)
  have "91 \<notin> set ?T" "91 \<notin> set ?T'" by (simp_all add: lit_def)
  with ci_same_mem[OF assms(3)] ci_same_mem[OF assms(4)]
  have "91 \<notin> set opn" "91 \<notin> set cls" by simp_all
  with assms(2) have no: "91 \<notin> set ?a" by simp
  have ne: "?a \<noteq> []" by (simp add: o')
  have "last ?a = 62" by (simp add: c')
  then have sp: "\<not> isSpace (last ?a)" by simp
  from replaceOrderCompleted_keeps[OF no ne sp, of rest]
  have rep: "replaceOrderCompleted (pre @ opn @ body @ cls @ rest) = ?a @ ?R" by simp
  have "trimStart (?a @ ?R) = trimStart pre @ opn @ body @ cls @ ?R"
    by (simp add: o' trimStart_nonspace)
  moreover have "trimEnd (trimStart pre @ opn @ body @ cls @ ?R)
                   = trimStart pre @ opn @ body @ cls @ trimEnd ?R"
    using trimEnd_nonspace[of 62 "trimStart pre @ opn @ body @ c'" ?R] by (simp add: c')
  ultimately have stripped: "stripOrderCompletedTag (pre @ opn @ body @ cls @ rest)
                               = trimStart pre @ opn @ body @ cls @ trimEnd ?R"
    by (simp add: stripOrderCompletedTag_def trim_def rep)
  have close: "find_first ?T' (body @ cls @ trimEnd ?R) = Some (body, trimEnd ?R)"
  proof (rule find_first_found[OF assms(4)], intro allI impI)
    fix n assume n: "n < length body"
    have "drop n (body @ cls @ trimEnd ?R) = drop n (body @ cls) @ trimEnd ?R"
      using n by simp
    moreover have "length ?T' \<le> length (drop n (body @ cls))"
      using n lenc by simp
    ultimately have "ci_prefix ?T' (drop n (body @ cls @ trimEnd ?R)) = ci_prefix ?T' (drop n (body @ cls))"
      by (simp only: ci_prefix_cut)
    then show "\<not> ci_prefix ?T' (drop n (body @ cls @ trimEnd ?R))"
      using assms(5) n by simp
  qed
  from assms(1) trimStart_set[of pre] have p: "60 \<notin> set (trimStart pre)" by blast
  have first: "\<forall>n<length (trimStart pre). \<not> ci_prefix ?T
                 (drop n (trimStart pre @ opn @ body @ cls @ trimEnd ?R))"
    unfolding T using p by (rule no_lt_no_prefix)
  have "regex_exec ?T ?T' (trimStart pre @ opn @ body @ cls @ trimEnd ?R)
          = Some (trimStart pre, body, trimEnd ?R)"
    using assms(3) close first by (rule regex_exec_found)
  with stripped have result: "stripTicketBlock (stripOrderCompletedTag (pre @ opn @ body @ cls @ rest))
                                = trim (trimStart pre @ trimEnd ?R)"
    by (simp add: stripTicketBlock_def)
  from assms(1) replaceOrderCompleted_set[of rest] trimEnd_set[of ?R]
  have "60 \<notin> set (trimEnd ?R)" by blast
  with p trim_set[of "trimStart pre @ trimEnd ?R"]
  have "60 \<notin> set (trim (trimStart pre @ trimEnd ?R))" by auto
  then have "get (trim (trimStart pre @ trimEnd ?R)) tag = None" for tag
    by (rule get_no_lt)
  with result show ?thesis by (simp add: extractTicketFields_def)
qed

theorem ticket_block_sanitized_witness:
  "60 \<notin> set (lit ''On it. '') \<union> set (lit '' [[ORDER_COMPLETED]]'') \<and>
   91 \<notin> set (lit ''On it. '') \<union> set (lit ''<su>X</su>'') \<and>
   map canon (lit ''<Ticket>'') = map canon (lit ''<ticket>'') \<and>
   stripTicketBlock (stripOrderCompletedTag
       (lit ''On it. '' @ lit ''<Ticket>'' @ lit ''<su>X</su>'' @ lit ''</ticket>'' @ lit '' [[ORDER_COMPLETED]]''))
     = lit ''On it.'' \<and>
   extractTicketFields (stripTicketBlock (stripOrderCompletedTag
       (lit ''On it. '' @ lit ''<Ticket>'' @ lit ''<su>X</su>'' @ lit ''</ticket>'' @ lit '' [[ORDER_COMPLETED]]'')))
     = \<lparr>summary = None, description = None, category = None\<rparr>"
proof -
  have lt: "60 \<notin> set (lit ''On it. '') \<union> set (lit '' [[ORDER_COMPLETED]]'')"
    by (simp add: lit_def)
  have lb: "91 \<notin> set (lit ''On it. '') \<union> set (lit ''<su>X</su>'')"
    by (simp add: lit_def)
  have o: "map canon (lit ''<Ticket>'') = map canon (lit ''<ticket>'')"
    by (simp add: lit_def canon_def)
  have c: "map canon (lit ''</ticket>'') = map canon (lit ''</ticket>'')"
    by simp
  have body: "lit ''<su>X</su>'' = [60, 115, 117, 62, 88, 60, 47, 115, 117, 62]"
    by (simp add: lit_def)
  have first: "\<forall>n<length (lit ''<su>X</su>''). \<not> ci_prefix (lit ''</ticket>'')
                 (drop n (lit ''<su>X</su>'' @ lit ''</ticket>''))"
    unfolding body
    by (intro no_prefix_Cons no_prefix_Nil) (simp_all add: lit_def)
  have rest: "replaceOrderCompleted (lit '' [[ORDER_COMPLETED]]'') = []"
    by (simp add: ORDER_COMPLETED_def lit_def isSpace_def canon_def)
  have t: "trim (trimStart (lit ''On it. '') @ trimEnd []) = lit ''On it.''"
    by (simp add: trim_def trimStart_def trimEnd_def isSpace_def lit_def)
  note inst = ticket_block_sanitized[OF lt lb o c first]
  from inst have "stripTicketBlock (stripOrderCompletedTag
       (lit ''On it. '' @ lit ''<Ticket>'' @ lit ''<su>X</su>'' @ lit ''</ticket>'' @ lit '' [[ORDER_COMPLETED]]''))
     = trim (trimStart (lit ''On it. '') @ trimEnd (replaceOrderCompleted (lit '' [[ORDER_COMPLETED]]'')))"
    by (rule conjunct1)
  then have "stripTicketBlock (stripOrderCompletedTag
       (lit ''On it. '' @ lit ''<Ticket>'' @ lit ''<su>X</su>'' @ lit ''</ticket>'' @ lit '' [[ORDER_COMPLETED]]''))
     = lit ''On it.''"
    unfolding rest t .
  with conjunct2[OF inst] lt lb o show ?thesis by blast
qed

text \<open>
  Against C10 as stated: the backend answers with a ticket element and the terminal marker
  and nothing else. The text is not empty, so no fallback is substituted; both parts are
  stripped, the reply is the empty string, and the empty string is stored as the assistant
  message.
\<close>

theorem empty_assistant_message:
  "fst (handleChatMessage hidden_only (lit ''yes'') s1 start)
     = Inr \<lparr>reply = [], orderCompleted = True, jiraIssueKey = None\<rparr> \<and>
   sessions (snd (handleChatMessage hidden_only (lit ''yes'') s1 start)) s1
     = Some [systemMessage, \<lparr>role = User, content = lit ''yes''\<rparr>, \<lparr>role = Assistant, content = []\<rparr>]"
proof -
  let ?u = "\<lparr>role = User, content = lit ''yes''\<rparr>"
  let ?t = "lit ''<ticket><su>X</su></ticket>[[ORDER_COMPLETED]]''"
  let ?w4 = "fresh\<lparr>sessions := (sessions fresh)(sessionKey s1 \<mapsto> [systemMessage] @ [?u])\<rparr>"
  let ?resp = "\<lparr>output_text = Some ?t\<rparr>"
  let ?w5 = "?w4\<lparr>calls := calls ?w4 @ [chatPayload ([systemMessage] @ [?u])]\<rparr>"
  have call: "callOpenAIWithRetry hidden_only (chatPayload ([systemMessage] @ [?u])) 3 ?w4
                = (Inr (Some ?resp), ?w5)"
    unfolding callOpenAIWithRetry_def
    by (rule callLoop_resolves) (simp_all add: hidden_only_def)
  note run = handle_success[OF conjunct1[OF first_turn_compaction] conjunct2[OF first_turn_compaction] call]
  have raw: "or_else (output_text ?resp) (lit ''Sorry, I had trouble answering that.'') = ?t"
    by (simp add: or_else_def lit_def)
  have t: "?t = lit ''<ticket><su>X</su></ticket>'' @ ORDER_COMPLETED"
    by (simp add: ORDER_COMPLETED_def lit_def)
  have compl: "isOrderCompleted ?t"
    unfolding t by (rule marker_detected)
  have "replaceOrderCompleted (lit ''<ticket><su>X</su></ticket>'' @ ORDER_COMPLETED)
          = lit ''<ticket><su>X</su></ticket>'' @ replaceOrderCompleted ORDER_COMPLETED"
    by (rule replaceOrderCompleted_keeps) (simp_all add: lit_def)
  then have a: "stripOrderCompletedTag ?t = lit ''<ticket><su>X</su></ticket>''"
    unfolding t
    by (simp add: stripOrderCompletedTag_def marker_alone)
       (simp add: trim_def trimStart_def trimEnd_def lit_def)
  have b: "stripTicketBlock (lit ''<ticket><su>X</su></ticket>'') = []"
    by (simp add: stripTicketBlock_def match_here_def trim_def lit_def)
  from a b have cleaned: "stripTicketBlock (stripOrderCompletedTag ?t) = []" by simp
  have jira: "createJiraIssue hidden_only a b = Failed" for a b
    by (simp add: hidden_only_def)
  have key: "sessionKey s1 = s1"
    by (simp add: sessionKey_def s1_def lit_def)
  have res: "fst (completeTurn hidden_only (sessionKey s1) ([systemMessage] @ [?u]) ?resp ?w5)
          = \<lparr>reply = [], orderCompleted = True, jiraIssueKey = None\<rparr>"
    using completeTurn_completed[OF raw compl cleaned refl refl, of hidden_only "sessionKey s1" "[systemMessage] @ [?u]" ?w5] jira
    by simp
  have "sessions (snd (completeTurn hidden_only (sessionKey s1) ([systemMessage] @ [?u]) ?resp ?w5)) s1
          = Some [systemMessage, ?u, \<lparr>role = Assistant, content = []\<rparr>]"
    using raw compl cleaned jira key
    by (simp add: completeTurn_def Let_def)
  with run res show ?thesis by simp
qed

lemma fallback_reply_clean:
  "\<not> isOrderCompleted (lit ''Sorry, I had trouble answering that.'') \<and>
   stripTicketBlock (stripOrderCompletedTag (lit ''Sorry, I had trouble answering that.''))
     = lit ''Sorry, I had trouble answering that.''"
proof -
  let ?f = "lit ''Sorry, I had trouble answering that.''"
  have lb: "91 \<notin> set ?f" and lt: "60 \<notin> set ?f"
    by (simp_all add: lit_def)
  from lb have a: "\<not> isOrderCompleted ?f" by (rule no_bracket_no_marker)
  have t: "trim ?f = ?f"
    by (simp add: trim_def trimStart_def trimEnd_def isSpace_def lit_def)
  have "replaceOrderCompleted (?f @ []) = ?f @ replaceOrderCompleted []"
    by (rule replaceOrderCompleted_keeps) (simp_all add: lit_def isSpace_def)
  then have b: "stripOrderCompletedTag ?f = ?f"
    by (simp add: stripOrderCompletedTag_def t)
  have "regex_exec (60 # lit ''ticket>'') (lit ''</ticket>'') ?f = None"
    using lt by (rule regex_exec_no_lt)
  moreover have "lit ''<ticket>'' = 60 # lit ''ticket>''" by (simp add: lit_def)
  ultimately have c: "stripTicketBlock ?f = ?f"
    by (simp add: stripTicketBlock_def t)
  from a b c show ?thesis by simp
qed

text \<open>
  C10, amended. When the call for the reply returns a response whose text is missing or
  empty, the turn succeeds, returns the fixed reply \<^verbatim>\<open>Sorry, I had trouble answering that.\<close>
  (not completed, no issue key) and stores that non-empty reply as the assistant message
  after the user message. For such a response the compactor's summary message carries its
  fixed fallback line, and the content of a summary message is never empty.
\<close>

theorem empty_output_fallback:
  assumes "output_text resp = None \<or> output_text resp = Some []"
    and "summarizeContextIfNeeded E (sessionKey sessionId)
           (snd (getContextForSession (sessionKey sessionId) w)) = (Inr (), w2)"
    and "sessions w2 (sessionKey sessionId) = Some context0"
    and "callOpenAIWithRetry E (chatPayload (context0 @ [\<lparr>role = User, content = message\<rparr>])) 3
           (w2\<lparr>sessions := (sessions w2)(sessionKey sessionId \<mapsto>
                              context0 @ [\<lparr>role = User, content = message\<rparr>])\<rparr>)
         = (Inr (Some resp), w5)"
  shows "handleChatMessage E message sessionId w =
           (Inr \<lparr>reply = lit ''Sorry, I had trouble answering that.'',
                 orderCompleted = False, jiraIssueKey = None\<rparr>,
            w5\<lparr>sessions := (sessions w5)(sessionKey sessionId \<mapsto>
                   context0 @ [\<lparr>role = User, content = message\<rparr>,
                               \<lparr>role = Assistant,
                                content = lit ''Sorry, I had trouble answering that.''\<rparr>])\<rparr>) \<and>
         lit ''Sorry, I had trouble answering that.'' \<noteq> [] \<and>
         summaryMessage resp =
           \<lparr>role = Assistant,
            content = lit ''Conversation summary so far:\<newline>'' @
                      lit ''Summary of the previous conversation so far (details omitted).''\<rparr> \<and>
         content (summaryMessage r) \<noteq> []"
proof -
  let ?f = "lit ''Sorry, I had trouble answering that.''"
  have raw: "or_else (output_text resp) ?f = ?f"
    using assms(1) by (auto simp: or_else_def)
  note clean = fallback_reply_clean
  from completeTurn_open[OF raw conjunct1[OF clean] conjunct2[OF clean]]
       handle_success[OF assms(2,3,4)]
  have "handleChatMessage E message sessionId w =
           (Inr \<lparr>reply = ?f, orderCompleted = False, jiraIssueKey = None\<rparr>,
            w5\<lparr>sessions := (sessions w5)(sessionKey sessionId \<mapsto>
                   context0 @ [\<lparr>role = User, content = message\<rparr>,
                               \<lparr>role = Assistant, content = ?f\<rparr>])\<rparr>)"
    by simp
  moreover have "?f \<noteq> []" by (simp add: lit_def)
  moreover have "summaryMessage resp =
           \<lparr>role = Assistant,
            content = lit ''Conversation summary so far:\<newline>'' @
                      lit ''Summary of the previous conversation so far (details omitted).''\<rparr>"
    using assms(1) by (auto simp: summaryMessage_def or_else_def Let_def)
  moreover have "content (summaryMessage r) \<noteq> []"
    by (simp add: summaryMessage_def Let_def lit_def)
  ultimately show ?thesis by blast
qed

theorem empty_output_fallback_witness:
  "(output_text \<lparr>output_text = Some []\<rparr> = None \<or> output_text \<lparr>output_text = Some []\<rparr> = Some []) \<and>
   fst (handleChatMessage silent (lit ''Hi'') s1 start)
     = Inr \<lparr>reply = lit ''Sorry, I had trouble answering that.'',
            orderCompleted = False, jiraIssueKey = None\<rparr> \<and>
   sessions (snd (handleChatMessage silent (lit ''Hi'') s1 start)) s1
     = Some [systemMessage, \<lparr>role = User, content = lit ''Hi''\<rparr>,
             \<lparr>role = Assistant, content = lit ''Sorry, I had trouble answering that.''\<rparr>] \<and>
   summaryMessage \<lparr>output_text = Some []\<rparr> =
     \<lparr>role = Assistant,
      content = lit ''Conversation summary so far:\<newline>'' @
                lit ''Summary of the previous conversation so far (details omitted).''\<rparr>"
proof -
  let ?u = "\<lparr>role = User, content = lit ''Hi''\<rparr>"
  let ?w4 = "fresh\<lparr>sessions := (sessions fresh)(sessionKey s1 \<mapsto> [systemMessage] @ [?u])\<rparr>"
  let ?resp = "\<lparr>output_text = Some []\<rparr>"
  let ?w5 = "?w4\<lparr>calls := calls ?w4 @ [chatPayload ([systemMessage] @ [?u])]\<rparr>"
  have e: "output_text ?resp = None \<or> output_text ?resp = Some []" by simp
  have call: "callOpenAIWithRetry silent (chatPayload ([systemMessage] @ [?u])) 3 ?w4
                = (Inr (Some ?resp), ?w5)"
    unfolding callOpenAIWithRetry_def
    by (rule callLoop_resolves) (simp_all add: silent_def)
  have key: "sessionKey s1 = s1"
    by (simp add: sessionKey_def s1_def lit_def)
  note a = empty_output_fallback[OF e conjunct1[OF first_turn_compaction]
             conjunct2[OF first_turn_compaction] call]
  from a e show ?thesis by (simp add: key)
qed

section \<open>The default session\<close>

lemma completeTurn_effect:
  "calls (snd (completeTurn E sid ctx resp w)) = calls w \<and>
   (sessions (snd (completeTurn E sid ctx resp w)) =
      (sessions w)(sid \<mapsto> ctx @ [\<lparr>role = Assistant,
                                   content = reply (fst (completeTurn E sid ctx resp w))\<rparr>]) \<or>
    orderCompleted (fst (completeTurn E sid ctx resp w)) \<and>
    sessions (snd (completeTurn E sid ctx resp w)) = (sessions w)(sid \<mapsto> [systemMessage]))"
  by (simp add: completeTurn_def Let_def split: jira_outcome.splits)

lemma gateway_requests:
  assumes "0 < retries" and "callOpenAIWithRetry E p retries w = (g, w')"
  shows "\<exists>k. int k < retries \<and> calls w' = calls w @ replicate (Suc k) p"
proof -
  from callLoop_run[OF assms(1), of E w p]
  obtain k where "0 + int k < retries"
    and "snd (callLoop E p retries 0 w) =
         w\<lparr>calls := calls w @ replicate (Suc k) p,
           delays := delays w @ map (\<lambda>j. (0 + int j + 1) * 1000) [0..<k]\<rparr>"
    by blast
  with assms(2) show ?thesis
    by (intro exI[of _ k]) (auto simp: callOpenAIWithRetry_def)
qed

lemma history_after_compaction:
  assumes comp: "summarizeContextIfNeeded E sid (snd (getContextForSession sid w)) = (Inr (), w2)"
    and ctx: "sessions w2 sid = Some context0"
  shows "(sessions w sid = None \<longrightarrow> context0 = [systemMessage]) \<and>
         (\<forall>c. sessions w sid = Some c \<longrightarrow>
            (length (drop 1 c) \<le> 20 \<longrightarrow> context0 = c) \<and>
            (20 < length (drop 1 c) \<longrightarrow> (\<exists>r. context0 = [hd c, summaryMessage r])))"
proof (intro conjI allI impI)
  assume none: "sessions w sid = None"
  let ?w1 = "w\<lparr>sessions := (sessions w)(sid \<mapsto> [systemMessage])\<rparr>"
  from none have w1: "snd (getContextForSession sid w) = ?w1"
    by (simp add: getContext_new)
  have "sessions ?w1 sid = Some [systemMessage]" by simp
  from summarize_short[OF this, of E] have "summarizeContextIfNeeded E sid ?w1 = (Inr (), ?w1)"
    by simp
  with comp have "w2 = ?w1" unfolding w1 by simp
  with ctx show "context0 = [systemMessage]" by simp
next
  fix c assume c: "sessions w sid = Some c" and short: "length (drop 1 c) \<le> 20"
  from c have "getContextForSession sid w = (c, w)" by (rule getContext_existing)
  with comp summarize_short[OF c short, of E] ctx c show "context0 = c" by simp
next
  fix c assume c: "sessions w sid = Some c" and long: "20 < length (drop 1 c)"
  from c have same: "getContextForSession sid w = (c, w)" by (rule getContext_existing)
  obtain g1 v where call1: "callOpenAIWithRetry E (summaryPayload (drop 1 c)) 3 w = (g1, v)"
    by (cases "callOpenAIWithRetry E (summaryPayload (drop 1 c)) 3 w")
  from long have hd0: "c ! 0 = hd c" by (cases c) simp_all
  from comp same summarize_long[OF c long, of E] call1
  have "(Inr (), w2) = (case g1 of Inl err \<Rightarrow> (Inl err, v) | Inr None \<Rightarrow> (Inl TypeError, v)
           | Inr (Some r) \<Rightarrow> (Inr (), v\<lparr>sessions := (sessions v)(sid \<mapsto> [c ! 0, summaryMessage r])\<rparr>))"
    by simp
  then obtain r where "w2 = v\<lparr>sessions := (sessions v)(sid \<mapsto> [c ! 0, summaryMessage r])\<rparr>"
    by (auto split: sum.splits option.splits)
  with ctx hd0 show "\<exists>r. context0 = [hd c, summaryMessage r]" by auto
qed

lemma turn_after_compaction:
  assumes comp: "summarizeContextIfNeeded E (sessionKey sessionId)
                   (snd (getContextForSession (sessionKey sessionId) w)) = (Inr (), w2)"
    and ctx: "sessions w2 (sessionKey sessionId) = Some context0"
  shows "(\<exists>k<3. calls (snd (handleChatMessage E message sessionId w)) =
            calls w2 @ replicate (Suc k) (chatPayload (context0 @ [\<lparr>role = User, content = message\<rparr>]))) \<and>
         (case fst (handleChatMessage E message sessionId w) of
            Inl e \<Rightarrow>
              sessions (snd (handleChatMessage E message sessionId w)) (sessionKey sessionId)
                = Some (context0 @ [\<lparr>role = User, content = message\<rparr>])
          | Inr r \<Rightarrow>
              sessions (snd (handleChatMessage E message sessionId w)) (sessionKey sessionId)
                = Some (context0 @ [\<lparr>role = User, content = message\<rparr>,
                                    \<lparr>role = Assistant, content = reply r\<rparr>]) \<or>
              orderCompleted r \<and>
              sessions (snd (handleChatMessage E message sessionId w)) (sessionKey sessionId)
                = Some [systemMessage])"
proof -
  let ?sid = "sessionKey sessionId"
  let ?u = "\<lparr>role = User, content = message\<rparr>"
  let ?p = "chatPayload (context0 @ [?u])"
  let ?w4 = "w2\<lparr>sessions := (sessions w2)(?sid \<mapsto> context0 @ [?u])\<rparr>"
  obtain g w5 where call: "callOpenAIWithRetry E ?p 3 ?w4 = (g, w5)"
    by (cases "callOpenAIWithRetry E ?p 3 ?w4")
  have pos: "0 < (3::int)" by simp
  from gateway_requests[OF pos call] obtain k
    where k: "k < 3" and reqs: "calls w5 = calls w2 @ replicate (Suc k) ?p"
    by auto
  from gateway_frame[OF call] have s5: "sessions w5 ?sid = Some (context0 @ [?u])"
    by simp
  have get2: "getContextForSession ?sid w2 = (context0, w2)"
    using ctx by (rule getContext_existing)
  show ?thesis
  proof (cases g)
    case (Inl e)
    with comp get2 call have "handleChatMessage E message sessionId w = (Inl e, w5)"
      by (simp add: handleChatMessage_def Let_def)
    with k reqs s5 show ?thesis by auto
  next
    case gr: (Inr opt)
    show ?thesis
    proof (cases opt)
      case None
      with gr comp get2 call have "handleChatMessage E message sessionId w = (Inl TypeError, w5)"
        by (simp add: handleChatMessage_def Let_def)
      with k reqs s5 show ?thesis by auto
    next
      case (Some resp)
      with gr call have call': "callOpenAIWithRetry E ?p 3 ?w4 = (Inr (Some resp), w5)"
        by simp
      note run = handle_success[OF comp ctx call']
      note eff = completeTurn_effect[of E ?sid "context0 @ [?u]" resp w5]
      from run eff k reqs have "\<exists>k<3. calls (snd (handleChatMessage E message sessionId w)) =
            calls w2 @ replicate (Suc k) ?p"
        by auto
      moreover from run eff have
        "sessions (snd (handleChatMessage E message sessionId w)) ?sid
           = Some (context0 @ [?u, \<lparr>role = Assistant,
                 content = reply (fst (completeTurn E ?sid (context0 @ [?u]) resp w5))\<rparr>]) \<or>
         orderCompleted (fst (completeTurn E ?sid (context0 @ [?u]) resp w5)) \<and>
         sessions (snd (handleChatMessage E message sessionId w)) ?sid = Some [systemMessage]"
        by auto
      ultimately show ?thesis using run by simp
    qed
  qed
qed

text \<open>
  C8. A turn whose session identifier is not truthy (absent, \<^verbatim>\<open>null\<close>, \<^verbatim>\<open>false\<close>, zero or the
  empty string) is the turn with the identifier \<^verbatim>\<open>"default-session"\<close>: same result, same
  state. After it a session is stored under that key, and no session under another key has
  changed. The turn reads the history stored under that key and appends to it: once
  compaction has completed, the history it works on is the system message alone when no
  session was stored under the key, the stored history when at most 20 messages follow its
  first, and the first message with a summary otherwise; the only requests made from then
  on carry that history followed by the user message; and afterwards the session under the
  key is that history with the user message when the turn throws, and with the user message
  and the returned reply when it returns, unless a completed ticket has reset it to the
  system message alone.
\<close>

theorem falsy_session_uses_default:
  assumes "\<not> truthy sessionId"
  shows "handleChatMessage E message sessionId w
           = handleChatMessage E message (JStr (lit ''default-session'')) w \<and>
         sessions (snd (handleChatMessage E message sessionId w)) (JStr (lit ''default-session'')) \<noteq> None \<and>
         (\<forall>k. k \<noteq> JStr (lit ''default-session'') \<longrightarrow>
            sessions (snd (handleChatMessage E message sessionId w)) k = sessions w k) \<and>
         (\<forall>w2 context0.
            summarizeContextIfNeeded E (JStr (lit ''default-session''))
              (snd (getContextForSession (JStr (lit ''default-session'')) w)) = (Inr (), w2) \<and>
            sessions w2 (JStr (lit ''default-session'')) = Some context0 \<longrightarrow>
            (sessions w (JStr (lit ''default-session'')) = None \<longrightarrow> context0 = [systemMessage]) \<and>
            (\<forall>c. sessions w (JStr (lit ''default-session'')) = Some c \<longrightarrow>
               (length (drop 1 c) \<le> 20 \<longrightarrow> context0 = c) \<and>
               (20 < length (drop 1 c) \<longrightarrow> (\<exists>r. context0 = [hd c, summaryMessage r]))) \<and>
            (\<exists>k<3. calls (snd (handleChatMessage E message sessionId w)) =
               calls w2 @ replicate (Suc k)
                 (chatPayload (context0 @ [\<lparr>role = User, content = message\<rparr>]))) \<and>
            (case fst (handleChatMessage E message sessionId w) of
               Inl e \<Rightarrow>
                 sessions (snd (handleChatMessage E message sessionId w)) (JStr (lit ''default-session''))
                   = Some (context0 @ [\<lparr>role = User, content = message\<rparr>])
             | Inr r \<Rightarrow>
                 sessions (snd (handleChatMessage E message sessionId w)) (JStr (lit ''default-session''))
                   = Some (context0 @ [\<lparr>role = User, content = message\<rparr>,
                                       \<lparr>role = Assistant, content = reply r\<rparr>]) \<or>
                 orderCompleted r \<and>
                 sessions (snd (handleChatMessage E message sessionId w)) (JStr (lit ''default-session''))
                   = Some [systemMessage]))"
proof -
  let ?d = "JStr (lit ''default-session'')"
  have key: "sessionKey sessionId = ?d"
    using assms by (simp add: sessionKey_def)
  have key': "sessionKey ?d = ?d"
    by (simp add: sessionKey_def lit_def)
  have same: "handleChatMessage E message sessionId w = handleChatMessage E message ?d w"
    by (simp add: handleChatMessage_def key key')
  note fr = handle_sessions[of sessionId E message w, unfolded key]
  have rest: "(sessions w ?d = None \<longrightarrow> context0 = [systemMessage]) \<and>
            (\<forall>c. sessions w ?d = Some c \<longrightarrow>
               (length (drop 1 c) \<le> 20 \<longrightarrow> context0 = c) \<and>
               (20 < length (drop 1 c) \<longrightarrow> (\<exists>r. context0 = [hd c, summaryMessage r]))) \<and>
            (\<exists>k<3. calls (snd (handleChatMessage E message sessionId w)) =
               calls w2 @ replicate (Suc k)
                 (chatPayload (context0 @ [\<lparr>role = User, content = message\<rparr>]))) \<and>
            (case fst (handleChatMessage E message sessionId w) of
               Inl e \<Rightarrow>
                 sessions (snd (handleChatMessage E message sessionId w)) ?d
                   = Some (context0 @ [\<lparr>role = User, content = message\<rparr>])
             | Inr r \<Rightarrow>
                 sessions (snd (handleChatMessage E message sessionId w)) ?d
                   = Some (context0 @ [\<lparr>role = User, content = message\<rparr>,
                                       \<lparr>role = Assistant, content = reply r\<rparr>]) \<or>
                 orderCompleted r \<and>
                 sessions (snd (handleChatMessage E message sessionId w)) ?d
                   = Some [systemMessage])"
    if comp: "summarizeContextIfNeeded E ?d (snd (getContextForSession ?d w)) = (Inr (), w2)"
      and ctx: "sessions w2 ?d = Some context0"
    for w2 context0
  proof -
    from comp have comp': "summarizeContextIfNeeded E (sessionKey sessionId)
                   (snd (getContextForSession (sessionKey sessionId) w)) = (Inr (), w2)"
      by (simp only: key)
    from ctx have ctx': "sessions w2 (sessionKey sessionId) = Some context0"
      by (simp only: key)
    note a = history_after_compaction[OF comp ctx]
    note b = turn_after_compaction[OF comp' ctx', of message, unfolded key]
    show ?thesis
      using conjunct1[OF a] conjunct2[OF a] conjunct1[OF b] conjunct2[OF b]
      by (intro conjI) assumption+
  qed
  show ?thesis
  proof (intro conjI)
    show "handleChatMessage E message sessionId w = handleChatMessage E message ?d w"
      by (rule same)
    show "sessions (snd (handleChatMessage E message sessionId w)) ?d \<noteq> None"
      using fr by (rule conjunct2)
    show "\<forall>k. k \<noteq> ?d \<longrightarrow>
            sessions (snd (handleChatMessage E message sessionId w)) k = sessions w k"
      using fr by (rule conjunct1)
  next
    show "\<forall>w2 context0.
            summarizeContextIfNeeded E ?d (snd (getContextForSession ?d w)) = (Inr (), w2) \<and>
            sessions w2 ?d = Some context0 \<longrightarrow>
            (sessions w ?d = None \<longrightarrow> context0 = [systemMessage]) \<and>
            (\<forall>c. sessions w ?d = Some c \<longrightarrow>
               (length (drop 1 c) \<le> 20 \<longrightarrow> context0 = c) \<and>
               (20 < length (drop 1 c) \<longrightarrow> (\<exists>r. context0 = [hd c, summaryMessage r]))) \<and>
            (\<exists>k<3. calls (snd (handleChatMessage E message sessionId w)) =
               calls w2 @ replicate (Suc k)
                 (chatPayload (context0 @ [\<lparr>role = User, content = message\<rparr>]))) \<and>
            (case fst (handleChatMessage E message sessionId w) of
               Inl e \<Rightarrow>
                 sessions (snd (handleChatMessage E message sessionId w)) ?d
                   = Some (context0 @ [\<lparr>role = User, content = message\<rparr>])
             | Inr r \<Rightarrow>
                 sessions (snd (handleChatMessage E message sessionId w)) ?d
                   = Some (context0 @ [\<lparr>role = User, content = message\<rparr>,
                                       \<lparr>role = Assistant, content = reply r\<rparr>]) \<or>
                 orderCompleted r \<and>
                 sessions (snd (handleChatMessage E message sessionId w)) ?d
                   = Some [systemMessage])"
    proof (intro allI impI, elim conjE)
      fix w2 context0
      assume "summarizeContextIfNeeded E ?d (snd (getContextForSession ?d w)) = (Inr (), w2)"
        and "sessions w2 ?d = Some context0"
      then show "(sessions w ?d = None \<longrightarrow> context0 = [systemMessage]) \<and>
            (\<forall>c. sessions w ?d = Some c \<longrightarrow>
               (length (drop 1 c) \<le> 20 \<longrightarrow> context0 = c) \<and>
               (20 < length (drop 1 c) \<longrightarrow> (\<exists>r. context0 = [hd c, summaryMessage r]))) \<and>
            (\<exists>k<3. calls (snd (handleChatMessage E message sessionId w)) =
               calls w2 @ replicate (Suc k)
                 (chatPayload (context0 @ [\<lparr>role = User, content = message\<rparr>]))) \<and>
            (case fst (handleChatMessage E message sessionId w) of
               Inl e \<Rightarrow>
                 sessions (snd (handleChatMessage E message sessionId w)) ?d
                   = Some (context0 @ [\<lparr>role = User, content = message\<rparr>])
             | Inr r \<Rightarrow>
                 sessions (snd (handleChatMessage E message sessionId w)) ?d
                   = Some (context0 @ [\<lparr>role = User, content = message\<rparr>,
                                       \<lparr>role = Assistant, content = reply r\<rparr>]) \<or>
                 orderCompleted r \<and>
                 sessions (snd (handleChatMessage E message sessionId w)) ?d
                   = Some [systemMessage])"
        by (rule rest)
    qed
  qed
qed

lemma hello_clean:
  "\<not> isOrderCompleted (lit ''Hello'') \<and>
   stripTicketBlock (stripOrderCompletedTag (lit ''Hello'')) = lit ''Hello''"
proof -
  let ?f = "lit ''Hello''"
  have lb: "91 \<notin> set ?f" and lt: "60 \<notin> set ?f"
    by (simp_all add: lit_def)
  from lb have a: "\<not> isOrderCompleted ?f" by (rule no_bracket_no_marker)
  have t: "trim ?f = ?f"
    by (simp add: trim_def trimStart_def trimEnd_def isSpace_def lit_def)
  have "replaceOrderCompleted (?f @ []) = ?f @ replaceOrderCompleted []"
    by (rule replaceOrderCompleted_keeps) (simp_all add: lit_def isSpace_def)
  then have b: "stripOrderCompletedTag ?f = ?f"
    by (simp add: stripOrderCompletedTag_def t)
  have "regex_exec (60 # lit ''ticket>'') (lit ''</ticket>'') ?f = None"
    using lt by (rule regex_exec_no_lt)
  moreover have "lit ''<ticket>'' = 60 # lit ''ticket>''" by (simp add: lit_def)
  ultimately have c: "stripTicketBlock ?f = ?f"
    by (simp add: stripTicketBlock_def t)
  from a b c show ?thesis by simp
qed

theorem falsy_session_uses_default_witness:
  "\<not> truthy Undefined \<and> \<not> truthy (JStr []) \<and>
   handleChatMessage answers (lit ''Hi'') Undefined chatting
     = handleChatMessage answers (lit ''Hi'') (JStr (lit ''default-session'')) chatting \<and>
   handleChatMessage answers (lit ''Hi'') (JStr []) chatting
     = handleChatMessage answers (lit ''Hi'') (JStr (lit ''default-session'')) chatting \<and>
   fst (handleChatMessage answers (lit ''Hi'') Undefined chatting)
     = Inr \<lparr>reply = lit ''Hello'', orderCompleted = False, jiraIssueKey = None\<rparr> \<and>
   sessions (snd (handleChatMessage answers (lit ''Hi'') Undefined chatting))
     (JStr (lit ''default-session''))
     = Some (earlier @ [\<lparr>role = User, content = lit ''Hi''\<rparr>,
                        \<lparr>role = Assistant, content = lit ''Hello''\<rparr>]) \<and>
   calls (snd (handleChatMessage answers (lit ''Hi'') Undefined chatting))
     = [chatPayload (earlier @ [\<lparr>role = User, content = lit ''Hi''\<rparr>])] \<and>
   sessions (snd (handleChatMessage answers (lit ''Hi'') Undefined chatting)) s1
     = Some [systemMessage]"
proof -
  let ?d = "JStr (lit ''default-session'')"
  let ?u = "\<lparr>role = User, content = lit ''Hi''\<rparr>"
  let ?run = "handleChatMessage answers (lit ''Hi'') Undefined chatting"
  have a: "\<not> truthy Undefined" and b: "\<not> truthy (JStr [])"
    by simp_all
  have ne: "s1 \<noteq> ?d"
    by (simp add: s1_def lit_def)
  have key: "sessionKey Undefined = ?d"
    by (simp add: sessionKey_def)
  have stored: "sessions chatting ?d = Some earlier"
    using ne by (simp add: chatting_def)
  have other: "sessions chatting s1 = Some [systemMessage]"
    by (simp add: chatting_def)
  have short: "length (drop 1 earlier) \<le> 20"
    by (simp add: earlier_def)
  have get: "getContextForSession ?d chatting = (earlier, chatting)"
    using stored by (rule getContext_existing)
  have comp: "summarizeContextIfNeeded answers ?d (snd (getContextForSession ?d chatting))
                = (Inr (), chatting)"
    using summarize_short[OF stored short, of answers] get by simp
  note u = falsy_session_uses_default[OF a, of answers "lit ''Hi''" chatting]
  note v = falsy_session_uses_default[OF b, of answers "lit ''Hi''" chatting]
  from u have eq: "?run = handleChatMessage answers (lit ''Hi'') ?d chatting"
    by (rule conjunct1)
  from v have eq': "handleChatMessage answers (lit ''Hi'') (JStr []) chatting
                      = handleChatMessage answers (lit ''Hi'') ?d chatting"
    by (rule conjunct1)
  from u[THEN conjunct2, THEN conjunct2, THEN conjunct1, rule_format, OF ne] other
  have frame: "sessions (snd ?run) s1 = Some [systemMessage]"
    by simp
  from u[THEN conjunct2, THEN conjunct2, THEN conjunct2, rule_format, OF conjI[OF comp stored],
         THEN conjunct2, THEN conjunct2, THEN conjunct2]
  have sess: "case fst ?run of
               Inl e \<Rightarrow> sessions (snd ?run) ?d = Some (earlier @ [?u])
             | Inr r \<Rightarrow>
                 sessions (snd ?run) ?d = Some (earlier @ [?u, \<lparr>role = Assistant, content = reply r\<rparr>]) \<or>
                 orderCompleted r \<and> sessions (snd ?run) ?d = Some [systemMessage]" .
  let ?w4 = "chatting\<lparr>sessions := (sessions chatting)(sessionKey Undefined \<mapsto> earlier @ [?u])\<rparr>"
  let ?resp = "\<lparr>output_text = Some (lit ''Hello'')\<rparr>"
  let ?w5 = "?w4\<lparr>calls := calls ?w4 @ [chatPayload (earlier @ [?u])]\<rparr>"
  have call: "callOpenAIWithRetry answers (chatPayload (earlier @ [?u])) 3 ?w4 = (Inr (Some ?resp), ?w5)"
    unfolding callOpenAIWithRetry_def
    by (rule callLoop_resolves) (simp_all add: answers_def)
  have comp': "summarizeContextIfNeeded answers (sessionKey Undefined)
                 (snd (getContextForSession (sessionKey Undefined) chatting)) = (Inr (), chatting)"
    unfolding key by (rule comp)
  have stored': "sessions chatting (sessionKey Undefined) = Some earlier"
    unfolding key by (rule stored)
  note run = handle_success[OF comp' stored' call]
  have raw: "or_else (output_text ?resp) (lit ''Sorry, I had trouble answering that.'') = lit ''Hello''"
    by (simp add: or_else_def lit_def)
  note fin = completeTurn_open[OF raw conjunct1[OF hello_clean] conjunct2[OF hello_clean],
               of answers "sessionKey Undefined" "earlier @ [?u]" ?w5]
  from run fin have res: "fst ?run = Inr \<lparr>reply = lit ''Hello'', orderCompleted = False, jiraIssueKey = None\<rparr>"
    by simp
  from run fin have reqs: "calls (snd ?run) = [chatPayload (earlier @ [?u])]"
    by (simp add: chatting_def start_def)
  from sess res have hist: "sessions (snd ?run) ?d
      = Some (earlier @ [?u, \<lparr>role = Assistant, content = lit ''Hello''\<rparr>])"
    by simp
  from a b eq eq' res hist reqs frame show ?thesis by blast
qed

end
